theory Spec2Isabelle
  imports Complex_Main "HOL-Library.AList"
begin

section \<open>JavaScript values\<close>

text \<open>
  The module works on untyped JavaScript data.  A number is a finite value, \<open>NaN\<close> or an
  infinity; only finiteness and truthiness of numbers are ever inspected, so a finite double
  is represented by the rational it denotes (both zeros are \<open>Fin 0\<close>).  An object is a plain
  object, given by the list of its own enumerable properties in \<open>Object.keys\<close> order.  A
  function is opaque; functions are told apart by a number.  The data the module validates
  hold strings, numbers, objects and arrays, but a function is what a read such as
  \<open>obj['toString']\<close> returns.
\<close>

datatype jsnum = Fin rat | NaN | Infinity | NegInfinity

datatype jsval =
    JUndefined
  | JNull
  | JBool bool
  | JNum jsnum
  | JStr string
  | JArr "jsval list"
  | JObj "(string \<times> jsval) list"
  | JFun nat

datatype error = TypeError

fun truthy :: "jsval \<Rightarrow> bool" where
  "truthy JUndefined = False"
| "truthy JNull = False"
| "truthy (JBool b) = b"
| "truthy (JNum (Fin r)) = (r \<noteq> 0)"
| "truthy (JNum NaN) = False"
| "truthy (JNum Infinity) = True"
| "truthy (JNum NegInfinity) = True"
| "truthy (JStr s) = (s \<noteq> [])"
| "truthy (JArr xs) = True"
| "truthy (JObj kvs) = True"
| "truthy (JFun f) = True"

fun typeof :: "jsval \<Rightarrow> string" where
  "typeof JUndefined = ''undefined''"
| "typeof JNull = ''object''"
| "typeof (JBool b) = ''boolean''"
| "typeof (JNum n) = ''number''"
| "typeof (JStr s) = ''string''"
| "typeof (JArr xs) = ''object''"
| "typeof (JObj kvs) = ''object''"
| "typeof (JFun f) = ''function''"

text \<open>\<open>Array.isArray\<close> and the global \<open>isFinite\<close> (applied to numbers only in this module).\<close>

fun Array_isArray :: "jsval \<Rightarrow> bool" where
  "Array_isArray (JArr xs) = True"
| "Array_isArray v = False"

fun isFinite :: "jsval \<Rightarrow> bool" where
  "isFinite (JNum (Fin r)) = True"
| "isFinite v = False"

text \<open>Decimal rendering of an array index, as \<open>Object.keys\<close> of an array or a string lists them.\<close>

function show_nat :: "nat \<Rightarrow> string" where
  "show_nat n =
     (if n < 10 then [char_of (48 + n)]
      else show_nat (n div 10) @ [char_of (48 + n mod 10)])"
  by pat_completeness auto
termination
  by (relation "measure id") auto

declare show_nat.simps [simp del]

fun own_entries :: "jsval \<Rightarrow> (string \<times> jsval) list" where
  "own_entries (JObj kvs) = kvs"
| "own_entries (JArr xs) = zip (map show_nat [0..<length xs]) xs"
| "own_entries (JStr s) = zip (map show_nat [0..<length s]) (map (\<lambda>c. JStr [c]) s)"
| "own_entries v = []"

definition Object_keys :: "jsval \<Rightarrow> string list" where
  "Object_keys v = map fst (own_entries v)"

text \<open>
  A read \<open>obj[key]\<close> returns the own enumerable property \<open>key\<close> of \<open>obj\<close> when there is one
  (the first binding in the list).  Otherwise it finds an own property that is not
  enumerable (the \<open>length\<close> of an array or a string) or a member inherited from the prototype
  of \<open>obj\<close> (\<open>constructor\<close>, \<open>toString\<close>, \<open>__proto__\<close>, ...), and \<open>undefined\<close> when there is
  none.  Which members the built-in prototypes define depends on the engine and the edition
  of its standard library, so that part of a read is a parameter of the model: \<open>E obj key\<close>
  is what \<open>obj[key]\<close> returns when \<open>key\<close> is not an own enumerable property of \<open>obj\<close>.
\<close>

type_synonym engine = "jsval \<Rightarrow> string \<Rightarrow> jsval"

text \<open>\<open>obj[key]\<close> on a value that is neither \<open>null\<close> nor \<open>undefined\<close>.\<close>

definition read :: "engine \<Rightarrow> jsval \<Rightarrow> string \<Rightarrow> jsval" where
  "read E obj key = (case map_of (own_entries obj) key of None \<Rightarrow> E obj key | Some v \<Rightarrow> v)"

text \<open>\<open>obj[key]\<close> in general: reading a property of \<open>null\<close> or \<open>undefined\<close> throws.\<close>

definition get_prop :: "engine \<Rightarrow> jsval \<Rightarrow> string \<Rightarrow> error + jsval" where
  "get_prop E obj key =
     (if obj = JNull \<or> obj = JUndefined then Inl TypeError else Inr (read E obj key))"

text \<open>
  \<open>result[key] = v\<close> on a plain object under construction: the key is created, or
  overwritten where it stands.  The key \<open>__proto__\<close> is the exception: the assignment runs the
  setter of \<open>Object.prototype\<close>, which changes the prototype of \<open>result\<close> at most and creates
  no property.  The module copies the finished object with \<open>Object.assign({}, ...)\<close>, which
  copies the own enumerable properties to an object with the usual prototype.
\<close>

definition set_prop :: "(string \<times> jsval) list \<Rightarrow> string \<Rightarrow> jsval \<Rightarrow> (string \<times> jsval) list" where
  "set_prop result key v = (if key = ''__proto__'' then result else AList.update key v result)"

text \<open>Defining the property \<open>key\<close>, as \<open>Object.fromEntries\<close> does for each entry: no setter runs.\<close>

definition define_prop :: "(string \<times> jsval) list \<Rightarrow> string \<Rightarrow> jsval \<Rightarrow> (string \<times> jsval) list" where
  "define_prop result key v = AList.update key v result"

section \<open>Utilities imported from \<open>src/utils.js\<close>\<close>

text \<open>
  Modelled from the spec: \<open>isEmpty\<close> of \<open>src/utils.js\<close>, which is not among the sources.  The
  spec calls a value empty when it is a structured value (object or array) with zero
  entries; like the library function, the model also answers true for every falsy value and
  for a string without characters.
\<close>

fun isEmpty :: "jsval \<Rightarrow> bool" where
  "isEmpty (JArr xs) = (xs = [])"
| "isEmpty (JStr s) = (s = [])"
| "isEmpty (JObj kvs) = (kvs = [])"
| "isEmpty v = True"

text \<open>
  Modelled from the spec: \<open>isNumber\<close> of \<open>src/utils.js\<close>, which is not among the sources.  The
  spec's "numeric": the value is a number, finite or not.
\<close>

fun isNumber :: "jsval \<Rightarrow> bool" where
  "isNumber (JNum n) = True"
| "isNumber v = False"

section \<open>The validation module\<close>

subsection \<open>Schema descriptors and diagnostics\<close>

text \<open>
  The object literal \<open>{type: ..., isArray: ...}\<close> handed to \<open>typeValidation\<close>.  A \<open>type\<close> that is
  missing (or is not a string) is \<open>None\<close>; \<open>isArray\<close> is the truthiness of the attribute.
\<close>

record shape =
  type :: "string option"
  isArray :: bool

text \<open>
  An entry of \<open>ORTB_MAP\<close> (\<open>config.js\<close>, not among the sources) as the module reads it.
  \<open>children\<close>, \<open>invalid\<close> and \<open>optoutApplies\<close> record the truthiness of the attribute,
  \<open>required = None\<close> that the entry has no \<open>required\<close> list.
\<close>

record descriptor = shape +
  childType :: "string option"
  childisArray :: bool
  children :: bool
  required :: "string list option"
  invalid :: bool
  optoutApplies :: bool

text \<open>
  The table itself is a parameter: \<open>schema p\<close> is \<open>deepAccess(ORTB_MAP, p)\<close> for the dotted
  path \<open>p\<close>, \<open>None\<close> when the lookup is falsy.
\<close>

type_synonym schema = "string \<Rightarrow> descriptor option"

text \<open>
  One constructor per \<open>logWarn\<close> call of the module, holding the values interpolated into
  its message:
  \<^item> \<open>MissingRequired parent i key\<close>: "Filtered parent[] value at index i in ortb2 data:
    missing required property key" (\<open>getRequiredData\<close>);
  \<^item> \<open>ElementType parent i t\<close>: "Filtered parent[] value at index i in ortb2 data: expected
    type t" (first filter of \<open>filterArrayData\<close>);
  \<^item> \<open>ElementShape parent i t\<close>: the same message emitted by the reduce of
    \<open>filterArrayData\<close>;
  \<^item> \<open>InvalidProperty parent key\<close>: "Filtered parent key property in ortb2 data: invalid
    property";
  \<^item> \<open>PropertyType parent key t\<close>: "... expected type t", where \<open>t\<close> is \<open>array\<close> or the
    descriptor's type;
  \<^item> \<open>OptoutFound parent key\<close>: "Filtered parent key data: pubcid optout found";
  \<^item> \<open>EmptyData parent key\<close>: "... empty data found".
\<close>

datatype diag =
    MissingRequired string nat string
  | ElementType string nat "string option"
  | ElementShape string nat "string option"
  | InvalidProperty string string
  | PropertyType string string "string option"
  | OptoutFound string string
  | EmptyData string string

type_synonym 'a res = "error + ('a \<times> diag list)"

subsection \<open>\<open>isEmptyData\<close>, \<open>getRequiredData\<close>, \<open>typeValidation\<close>\<close>

definition isEmptyData :: "jsval \<Rightarrow> bool" where
  "isEmptyData data =
     (if typeof data = ''object'' \<and> \<not> isEmpty data then False
      else if typeof data \<noteq> ''object'' \<and> (isNumber data \<or> truthy data) then False
      else True)"

text \<open>
  The \<open>forEach\<close> of \<open>getRequiredData\<close>, threading the flag \<open>check\<close> and the warnings logged so
  far.  It visits every key: there is no early exit.
\<close>

fun required_forEach ::
  "engine \<Rightarrow> jsval \<Rightarrow> string \<Rightarrow> nat \<Rightarrow> string list \<Rightarrow> bool \<times> diag list \<Rightarrow> bool res" where
  "required_forEach E obj parent i [] acc = Inr acc"
| "required_forEach E obj parent i (key # keys) (check, warns) =
     (case get_prop E obj key of
        Inl e \<Rightarrow> Inl e
      | Inr v \<Rightarrow>
          if \<not> truthy v \<or> isEmptyData v
          then required_forEach E obj parent i keys (False, warns @ [MissingRequired parent i key])
          else required_forEach E obj parent i keys (check, warns))"

text \<open>\<open>required\<close> is \<open>None\<close> when the caller passes \<open>undefined\<close>: \<open>required.forEach\<close> then throws.\<close>

definition getRequiredData ::
  "engine \<Rightarrow> jsval \<Rightarrow> string list option \<Rightarrow> string \<Rightarrow> nat \<Rightarrow> bool res" where
  "getRequiredData E obj required' parent i =
     (case required' of
        None \<Rightarrow> Inl TypeError
      | Some keys \<Rightarrow> required_forEach E obj parent i keys (True, []))"

definition typeValidation :: "jsval \<Rightarrow> shape \<Rightarrow> bool" where
  "typeValidation data mapping =
     (if type mapping = Some ''string'' then typeof data = ''string''
      else if type mapping = Some ''number'' then typeof data = ''number'' \<and> isFinite data
      else if type mapping = Some ''object'' then
        typeof data = ''object'' \<and>
        ((Array_isArray data \<and> isArray mapping) \<or> (\<not> Array_isArray data \<and> \<not> isArray mapping))
      else False)"

subsection \<open>Array iteration with warnings and exceptions\<close>

text \<open>
  A callback of \<open>filter\<close>, \<open>map\<close> or \<open>reduce\<close> either throws or returns a value together with
  the warnings it logged.  The combinators run the callbacks from left to right, hand each
  the index of its element in the array iterated over, stop at the first exception and
  collect the warnings in the order they were logged.
\<close>

definition bind_res :: "'a res \<Rightarrow> ('a \<Rightarrow> 'b res) \<Rightarrow> 'b res" where
  "bind_res m f =
     (case m of
        Inl e \<Rightarrow> Inl e
      | Inr (a, w) \<Rightarrow> (case f a of Inl e \<Rightarrow> Inl e | Inr (b, w') \<Rightarrow> Inr (b, w @ w')))"

definition lift_res :: "error + 'a \<Rightarrow> 'a res" where
  "lift_res m = (case m of Inl e \<Rightarrow> Inl e | Inr a \<Rightarrow> Inr (a, []))"

fun filter_from :: "nat \<Rightarrow> ('a \<Rightarrow> nat \<Rightarrow> bool res) \<Rightarrow> 'a list \<Rightarrow> 'a list res" where
  "filter_from i f [] = Inr ([], [])"
| "filter_from i f (x # xs) =
     bind_res (f x i) (\<lambda>keep.
     bind_res (filter_from (Suc i) f xs) (\<lambda>ys.
     Inr (if keep then x # ys else ys, [])))"

definition Array_filter :: "('a \<Rightarrow> nat \<Rightarrow> bool res) \<Rightarrow> 'a list \<Rightarrow> 'a list res" where
  "Array_filter f xs = filter_from 0 f xs"

fun map_res :: "('a \<Rightarrow> 'b res) \<Rightarrow> 'a list \<Rightarrow> 'b list res" where
  "map_res f [] = Inr ([], [])"
| "map_res f (x # xs) =
     bind_res (f x) (\<lambda>y. bind_res (map_res f xs) (\<lambda>ys. Inr (y # ys, [])))"

fun reduce_from :: "nat \<Rightarrow> ('b \<Rightarrow> 'a \<Rightarrow> nat \<Rightarrow> 'b res) \<Rightarrow> 'a list \<Rightarrow> 'b \<Rightarrow> 'b res" where
  "reduce_from i f [] acc = Inr (acc, [])"
| "reduce_from i f (x # xs) acc = bind_res (f acc x i) (reduce_from (Suc i) f xs)"

definition Array_reduce :: "('b \<Rightarrow> 'a \<Rightarrow> nat \<Rightarrow> 'b res) \<Rightarrow> 'a list \<Rightarrow> 'b \<Rightarrow> 'b res" where
  "Array_reduce f xs init = reduce_from 0 f xs init"

lemma bind_res_cong [fundef_cong]:
  "m = m' \<Longrightarrow> (\<And>a w. m' = Inr (a, w) \<Longrightarrow> f a = f' a) \<Longrightarrow> bind_res m f = bind_res m' f'"
  by (auto simp: bind_res_def split: sum.splits)

lemma reduce_from_cong:
  "(\<And>acc x i. x \<in> set xs \<Longrightarrow> f acc x i = g acc x i) \<Longrightarrow>
   reduce_from i f xs a = reduce_from i g xs a"
proof (induction xs arbitrary: i a)
  case Nil
  show ?case by simp
next
  case (Cons x xs)
  have "reduce_from (Suc i) f xs = reduce_from (Suc i) g xs"
    using Cons by (intro ext) simp
  then show ?case using Cons.prems by simp
qed

lemma Array_reduce_cong [fundef_cong]:
  "xs = ys \<Longrightarrow> a = b \<Longrightarrow> (\<And>acc x i. x \<in> set ys \<Longrightarrow> f acc x i = g acc x i) \<Longrightarrow>
   Array_reduce f xs a = Array_reduce g ys b"
  unfolding Array_reduce_def using reduce_from_cong [of ys f g 0 b] by simp

lemma map_res_cong [fundef_cong]:
  "xs = ys \<Longrightarrow> (\<And>x. x \<in> set ys \<Longrightarrow> f x = g x) \<Longrightarrow> map_res f xs = map_res g ys"
  by (induction ys arbitrary: xs) auto

lemma filter_from_subset:
  "filter_from i f xs = Inr (ys, w) \<Longrightarrow> set ys \<subseteq> set xs"
proof (induction xs arbitrary: i ys w)
  case Nil
  then show ?case by simp
next
  case (Cons x xs)
  then show ?case
    by (fastforce simp: bind_res_def split: sum.splits prod.splits if_splits)
qed

lemma filter_from_kept:
  "filter_from i f xs = Inr (ys, w) \<Longrightarrow> y \<in> set ys \<Longrightarrow> \<exists>j w'. f y j = Inr (True, w')"
proof (induction xs arbitrary: i ys w)
  case Nil
  then show ?case by simp
next
  case (Cons x xs)
  then show ?case
    by (fastforce simp: bind_res_def split: sum.splits prod.splits if_splits)
qed


subsection \<open>\<open>filterArrayData\<close> and \<open>validateFpd\<close>\<close>

text \<open>Truthiness of an attribute that holds a type name, as in \<open>mapping.childType\<close>.\<close>

definition declared :: "string option \<Rightarrow> bool" where
  "declared t = (case t of None \<Rightarrow> False | Some s \<Rightarrow> s \<noteq> [])"

lemma size_map_of_less:
  "map_of kvs k = Some v \<Longrightarrow> size v < Suc (size_list (size_prod (\<lambda>x. 0) size) kvs)"
  by (induction kvs) (auto split: if_splits)

lemma size_map_of_zip_less:
  "map_of (zip ks xs) k = Some v \<Longrightarrow> size (v::jsval) < Suc (size_list size xs)"
proof -
  assume "map_of (zip ks xs) k = Some v"
  then have "v \<in> set xs" by (meson in_set_zipE map_of_SomeD)
  then show ?thesis by (induction xs) auto
qed

lemma map_of_zip_chars:
  "map_of (zip ks (map (\<lambda>c. JStr [c]) s)) k = Some v \<Longrightarrow> \<exists>c. v = JStr [c]"
proof -
  assume "map_of (zip ks (map (\<lambda>c. JStr [c]) s)) k = Some v"
  then have "v \<in> set (map (\<lambda>c. JStr [c]) s)" by (meson in_set_zipE map_of_SomeD)
  then show ?thesis by auto
qed

lemma map_of_own_entries:
  "k \<in> set (Object_keys v) \<Longrightarrow> \<exists>x. map_of (own_entries v) k = Some x"
  unfolding Object_keys_def by (cases "map_of (own_entries v) k") (auto simp: map_of_eq_None_iff)

lemma size_read_le: "k \<in> set (Object_keys v) \<Longrightarrow> size (read E v k) \<le> size v"
proof -
  assume "k \<in> set (Object_keys v)"
  then obtain x where x: "map_of (own_entries v) k = Some x"
    using map_of_own_entries by blast
  show ?thesis
  proof (cases v)
    case (JArr xs)
    then show ?thesis
      using x size_map_of_zip_less [of "map show_nat [0..<length xs]" xs k x]
      by (simp add: read_def)
  next
    case (JObj kvs)
    then show ?thesis
      using x size_map_of_less [of kvs k x] by (simp add: read_def)
  next
    case (JStr s)
    then show ?thesis
      using x map_of_zip_chars [of "map show_nat [0..<length s]" s k x]
      by (auto simp: read_def)
  qed (use x in simp_all)
qed

lemma size_read_less:
  "k \<in> set (Object_keys v) \<Longrightarrow> typeof (read E v k) = ''object'' \<Longrightarrow> size (read E v k) < size v"
proof -
  assume "k \<in> set (Object_keys v)" and t: "typeof (read E v k) = ''object''"
  then obtain x where x: "map_of (own_entries v) k = Some x"
    using map_of_own_entries by blast
  show ?thesis
  proof (cases v)
    case (JArr xs)
    then show ?thesis
      using x size_map_of_zip_less [of "map show_nat [0..<length xs]" xs k x]
      by (simp add: read_def)
  next
    case (JObj kvs)
    then show ?thesis
      using x size_map_of_less [of kvs k x] by (simp add: read_def)
  next
    case (JStr s)
    then show ?thesis
      using x t map_of_zip_chars [of "map show_nat [0..<length s]" s k x]
      by (auto simp: read_def)
  qed (use x in simp_all)
qed


lemma Array_filter_subset:
  "Array_filter f xs = Inr (ys, w) \<Longrightarrow> set ys \<subseteq> set xs"
  unfolding Array_filter_def by (rule filter_from_subset)

lemma Array_filter_kept:
  "Array_filter f xs = Inr (ys, w) \<Longrightarrow> y \<in> set ys \<Longrightarrow> \<exists>j w'. f y j = Inr (True, w')"
  unfolding Array_filter_def by (rule filter_from_kept)

lemma typeValidation_object:
  "typeValidation v \<lparr>type = Some ''object'', isArray = b\<rparr> =
     (typeof v = ''object'' \<and> Array_isArray v = b)"
  by (auto simp: typeValidation_def)

lemma size_elem_less: "x \<in> set xs \<Longrightarrow> size (x::jsval) < size (JArr xs)"
  by (induction xs) auto

text \<open>
  The module-level variable \<open>optout\<close> is read by \<open>validateFpd\<close> only; it is passed down as
  an argument.  \<open>validateFpd\<close> returns the empty object for a falsy \<open>fpd\<close>; \<open>filterArrayData\<close>
  calls \<open>arr.filter\<close>, which throws when \<open>arr\<close> is not an array.  The two filters of
  \<open>validateFpd\<close> answer with the key itself, so they keep a key only if it is truthy, that
  is, not the empty string.  The index a callback
  receives is the position in the array its \<open>filter\<close> or \<open>reduce\<close> runs over, that is, in the
  output of the stage before.
\<close>

function (sequential)
  validateFpd :: "engine \<Rightarrow> schema \<Rightarrow> bool \<Rightarrow> jsval \<Rightarrow> string \<Rightarrow> string \<Rightarrow> jsval res" and
  filterArrayData :: "engine \<Rightarrow> schema \<Rightarrow> bool \<Rightarrow> jsval \<Rightarrow> shape \<Rightarrow> string \<Rightarrow> string \<Rightarrow> jsval res"
where
  "validateFpd E ORTB_MAP optout fpd path parent =
     (if \<not> truthy fpd then Inr (JObj [], [])
      else
        bind_res (Array_filter (\<lambda>key i.
          case ORTB_MAP (path @ key) of
            None \<Rightarrow> Inr (key \<noteq> [], [])
          | Some mapping \<Rightarrow>
              if \<not> invalid mapping then Inr (key \<noteq> [], [])
              else Inr (False, [InvalidProperty parent key])) (Object_keys fpd)) (\<lambda>keys1.
        bind_res (Array_filter (\<lambda>key i.
          case ORTB_MAP (path @ key) of
            None \<Rightarrow> Inr (key \<noteq> [], [])
          | Some mapping \<Rightarrow>
              if typeValidation (read E fpd key) \<lparr>type = type mapping, isArray = isArray mapping\<rparr>
              then Inr (key \<noteq> [], [])
              else Inr (False, [PropertyType parent key
                     (if isArray mapping then Some ''array'' else type mapping)])) keys1) (\<lambda>keys2.
        bind_res (Array_reduce (\<lambda>result key i.
          case ORTB_MAP (path @ key) of
            None \<Rightarrow> Inr (set_prop result key (read E fpd key), [])
          | Some mapping \<Rightarrow>
              if optoutApplies mapping \<and> optout then Inr (result, [OptoutFound parent key])
              else
                bind_res
                  (if type mapping = Some ''object'' \<and> \<not> isArray mapping
                   then validateFpd E ORTB_MAP optout (read E fpd key)
                          (path @ key @ ''.children.'') (parent @ key @ ''.'')
                   else if isArray mapping \<and> declared (childType mapping)
                   then filterArrayData E ORTB_MAP optout (read E fpd key)
                          \<lparr>type = childType mapping, isArray = childisArray mapping\<rparr>
                          (path @ key) (parent @ key)
                   else Inr (read E fpd key, [])) (\<lambda>modified.
                if \<not> isEmptyData modified then Inr (set_prop result key modified, [])
                else Inr (result, [EmptyData parent key]))) keys2 []) (\<lambda>validObject.
        Inr (JObj validObject, [])))))"
| "filterArrayData E ORTB_MAP optout (JArr arr) child path parent =
     bind_res (Array_filter (\<lambda>index i.
       let check = typeValidation index \<lparr>type = type child, isArray = isArray child\<rparr> in
       if check \<and> Array_isArray index = isArray child then Inr (True, [])
       else Inr (False, [ElementType parent i (type child)])) arr) (\<lambda>arr1.
     bind_res (Array_filter (\<lambda>index i.
       case ORTB_MAP path of
         None \<Rightarrow> Inr (True, [])
       | Some mapping \<Rightarrow>
           (case required mapping of
              None \<Rightarrow> Inr (True, [])
            | Some keys \<Rightarrow> getRequiredData E index (Some keys) parent i)) arr1) (\<lambda>arr2.
     bind_res (Array_reduce (\<lambda>result v i.
       if type child = Some ''string'' then Inr (result @ [v], [])
       else if type child = Some ''object'' then
         (case ORTB_MAP path of
            None \<Rightarrow> Inr (result @ [v], [])
          | Some mapping \<Rightarrow>
              if children mapping then
                bind_res (validateFpd E ORTB_MAP optout v (path @ ''.children.'') (parent @ ''.''))
                  (\<lambda>validObject.
                if Object_keys validObject \<noteq> [] then
                  bind_res (getRequiredData E validObject (required mapping) parent i)
                    (\<lambda>requiredCheck.
                  if requiredCheck then Inr (result @ [validObject], [])
                  else Inr (result, [ElementShape parent i (type child)]))
                else Inr (result, [ElementShape parent i (type child)]))
              else Inr (result @ [v], []))
       else Inr (result, [ElementShape parent i (type child)])) arr2 []) (\<lambda>result.
     Inr (JArr result, []))))"
| "filterArrayData E ORTB_MAP optout arr child path parent = Inl TypeError"
  by pat_completeness auto
termination
proof (relation "measure (\<lambda>x. case x of
            Inl (E, S, optout, fpd, path, parent) \<Rightarrow> 2 * size fpd + 1
          | Inr (E, S, optout, arr, child, path, parent) \<Rightarrow> 2 * size arr)", goal_cases)
  case 1
  show ?case by simp
next
  case (2 E ORTB_MAP optout fpd path parent keys1 w1 keys2 w2 acc key i mapping)
  from Array_filter_subset [OF 2(2)] Array_filter_subset [OF 2(3)] 2(4)
  have own: "key \<in> set (Object_keys fpd)" by blast
  from Array_filter_kept [OF 2(3) 2(4)] 2(5) 2(7)
  have "typeof (read E fpd key) = ''object''"
    by (auto simp: typeValidation_object split: if_splits)
  then show ?case using size_read_less [OF own, of E] by simp
next
  case (3 E ORTB_MAP optout fpd path parent keys1 w1 keys2 w2 acc key i mapping)
  from Array_filter_subset [OF 3(2)] Array_filter_subset [OF 3(3)] 3(4)
  have own: "key \<in> set (Object_keys fpd)" by blast
  show ?case using size_read_le [OF own, of E] by simp
next
  case (4 E ORTB_MAP optout arr child path parent arr1 w1 arr2 w2 acc v i mapping)
  from Array_filter_subset [OF 4(1)] Array_filter_subset [OF 4(2)] 4(3)
  have "v \<in> set arr" by blast
  then show ?case using size_elem_less [of v arr] by simp
qed


declare validateFpd.simps [simp del] filterArrayData.simps(1) [simp del]

subsection \<open>\<open>runValidations\<close> and \<open>processFpd\<close>\<close>

text \<open>\<open>Object.entries\<close> throws on \<open>null\<close> and \<open>undefined\<close>; \<open>Object.fromEntries\<close> defines the
  entries from left to right.\<close>

definition Object_entries :: "jsval \<Rightarrow> error + (string \<times> jsval) list" where
  "Object_entries v =
     (if v = JNull \<or> v = JUndefined then Inl TypeError else Inr (own_entries v))"

definition Object_fromEntries :: "(string \<times> jsval) list \<Rightarrow> (string \<times> jsval) list" where
  "Object_fromEntries es = fold (\<lambda>(k, v) obj. define_prop obj k v) es []"

definition runValidations :: "engine \<Rightarrow> schema \<Rightarrow> bool \<Rightarrow> jsval \<Rightarrow> jsval res" where
  "runValidations E ORTB_MAP optout data =
     bind_res (lift_res (get_prop E data ''global'')) (\<lambda>data_global.
     bind_res (validateFpd E ORTB_MAP optout data_global [] []) (\<lambda>global.
     bind_res (lift_res (get_prop E data ''bidder'')) (\<lambda>data_bidder.
     bind_res (lift_res (Object_entries data_bidder)) (\<lambda>entries.
     bind_res (map_res (\<lambda>(bidder, conf).
         bind_res (validateFpd E ORTB_MAP optout conf [] []) (\<lambda>v. Inr ((bidder, v), [])))
       entries) (\<lambda>validated.
     Inr (JObj [(''global'', global), (''bidder'', JObj (Object_fromEntries validated))],
          []))))))"

text \<open>
  The storage manager is outside the module; \<open>processFpd\<close> asks it four questions.  A cookie
  or a storage item is a string or \<open>null\<close> (\<open>None\<close>).
\<close>

record storage =
  cookiesAreEnabled :: bool
  getCookie :: "string \<Rightarrow> string option"
  hasLocalStorage :: bool
  getDataFromLocalStorage :: "string \<Rightarrow> string option"

text \<open>Truthiness of the value assigned to \<open>optout\<close>.\<close>

definition compute_optout :: "storage \<Rightarrow> bool" where
  "compute_optout STORAGE =
     ((cookiesAreEnabled STORAGE \<and> declared (getCookie STORAGE ''_pubcid_optout'')) \<or>
      (hasLocalStorage STORAGE \<and> declared (getDataFromLocalStorage STORAGE ''_pubcid_optout'')))"

definition processFpd :: "engine \<Rightarrow> schema \<Rightarrow> storage \<Rightarrow> jsval \<Rightarrow> jsval \<Rightarrow> jsval res" where
  "processFpd E ORTB_MAP STORAGE fpdConf data =
     (let optout = compute_optout STORAGE in
      bind_res (lift_res (get_prop E fpdConf ''skipValidations'')) (\<lambda>skipValidations.
      if \<not> truthy skipValidations then runValidations E ORTB_MAP optout data
      else Inr (data, [])))"

section \<open>The built-in members\<close>

text \<open>
  The engine of the examples, after ECMAScript 2019 and its Annex B.  When \<open>key\<close> is not an
  own enumerable property of \<open>obj\<close>, the read \<open>obj[key]\<close> returns
  \<^item> for \<open>length\<close>, the length of an array or a string;
  \<^item> for \<open>__proto__\<close>, the prototype of \<open>obj\<close>: an object without enumerable properties, which
    is an array for an array and a function for a function;
  \<^item> for the name of a method of the prototype of \<open>obj\<close>, or of \<open>Object.prototype\<close> behind it,
    a function (\<open>constructor\<close> is one of them);
  \<^item> \<open>undefined\<close> for every other name.

  The examples do not tell functions apart: every method is \<open>JFun 0\<close>.  Of a function the
  engine knows the members that every function inherits and none of its own (its \<open>length\<close>,
  its \<open>name\<close>, the static methods of a constructor); the module never reads such a member.
\<close>

definition object_members :: "string list" where
  "object_members =
     [''constructor'', ''hasOwnProperty'', ''isPrototypeOf'', ''propertyIsEnumerable'',
      ''toLocaleString'', ''toString'', ''valueOf'', ''__defineGetter__'', ''__defineSetter__'',
      ''__lookupGetter__'', ''__lookupSetter__'']"

definition array_members :: "string list" where
  "array_members =
     [''concat'', ''copyWithin'', ''entries'', ''every'', ''fill'', ''filter'', ''find'',
      ''findIndex'', ''flat'', ''flatMap'', ''forEach'', ''includes'', ''indexOf'', ''join'',
      ''keys'', ''lastIndexOf'', ''map'', ''pop'', ''push'', ''reduce'', ''reduceRight'',
      ''reverse'', ''shift'', ''slice'', ''some'', ''sort'', ''splice'', ''unshift'', ''values'']"

definition string_members :: "string list" where
  "string_members =
     [''anchor'', ''big'', ''blink'', ''bold'', ''charAt'', ''charCodeAt'', ''codePointAt'',
      ''concat'', ''endsWith'', ''fixed'', ''fontcolor'', ''fontsize'', ''includes'', ''indexOf'',
      ''italics'', ''lastIndexOf'', ''link'', ''localeCompare'', ''match'', ''normalize'',
      ''padEnd'', ''padStart'', ''repeat'', ''replace'', ''search'', ''slice'', ''small'',
      ''split'', ''startsWith'', ''strike'', ''sub'', ''substr'', ''substring'', ''sup'',
      ''toLocaleLowerCase'', ''toLocaleUpperCase'', ''toLowerCase'', ''toUpperCase'', ''trim'',
      ''trimEnd'', ''trimLeft'', ''trimRight'', ''trimStart'']"

definition number_members :: "string list" where
  "number_members = [''toExponential'', ''toFixed'', ''toPrecision'']"

definition function_members :: "string list" where
  "function_members = [''apply'', ''bind'', ''call'']"

fun members :: "jsval \<Rightarrow> string list" where
  "members (JArr xs) = array_members @ object_members"
| "members (JStr s) = string_members @ object_members"
| "members (JNum n) = number_members @ object_members"
| "members (JFun f) = function_members @ object_members"
| "members v = object_members"

fun prototype_of :: "jsval \<Rightarrow> jsval" where
  "prototype_of (JArr xs) = JArr []"
| "prototype_of (JFun f) = JFun 0"
| "prototype_of v = JObj []"

fun own_length :: "jsval \<Rightarrow> jsval" where
  "own_length (JArr xs) = JNum (Fin (of_nat (length xs)))"
| "own_length (JStr s) = JNum (Fin (of_nat (length s)))"
| "own_length v = JUndefined"

definition standard_engine :: engine where
  "standard_engine obj key =
     (if key = ''length'' then own_length obj
      else if key = ''__proto__'' then prototype_of obj
      else if key \<in> set (members obj) then JFun 0
      else JUndefined)"

section \<open>Notions of the specification and example inputs\<close>

text \<open>The specification's "structured value": an object or an array (\<open>null\<close> is neither).\<close>

fun structured :: "jsval \<Rightarrow> bool" where
  "structured (JArr xs) = True"
| "structured (JObj kvs) = True"
| "structured v = False"

text \<open>The test \<open>getRequiredData\<close> applies to one required name, negated.\<close>

definition required_ok :: "engine \<Rightarrow> jsval \<Rightarrow> string \<Rightarrow> bool" where
  "required_ok E obj key = (truthy (read E obj key) \<and> \<not> isEmptyData (read E obj key))"

text \<open>The empty object literal as a schema entry: every attribute is missing.\<close>

definition entry :: descriptor where
  "entry = \<lparr>type = None, isArray = False, childType = None, childisArray = False,
     children = False, required = None, invalid = False, optoutApplies = False\<rparr>"

text \<open>
  A table in the shape the module is used with: \<open>user\<close> is an object whose children \<open>yob\<close> and
  \<open>gender\<close> are redacted on opt-out and whose child \<open>data\<close> is an array of objects with required
  names, each holding an array \<open>segment\<close> of objects with a required \<open>id\<close>.
\<close>

definition example_map :: schema where
  "example_map = map_of
     [(''imp'', entry\<lparr>invalid := True\<rparr>),
      (''cur'', entry\<lparr>type := Some ''object'', isArray := True, childType := Some ''string''\<rparr>),
      (''user'', entry\<lparr>type := Some ''object'', children := True\<rparr>),
      (''user.children.yob'', entry\<lparr>type := Some ''number'', optoutApplies := True\<rparr>),
      (''user.children.gender'', entry\<lparr>type := Some ''string'', optoutApplies := True\<rparr>),
      (''user.children.data'',
         entry\<lparr>type := Some ''object'', isArray := True, childType := Some ''object'',
           required := Some [''name'', ''segment''], children := True\<rparr>),
      (''user.children.data.children.name'', entry\<lparr>type := Some ''string''\<rparr>),
      (''user.children.data.children.segment'',
         entry\<lparr>type := Some ''object'', isArray := True, childType := Some ''object'',
           required := Some [''id''], children := True\<rparr>),
      (''user.children.data.children.segment.children.id'', entry\<lparr>type := Some ''string''\<rparr>)]"

text \<open>The table of the specification's Scenario C.\<close>

definition scenario_C_map :: schema where
  "scenario_C_map = map_of [(''user'', entry\<lparr>type := Some ''object'', required := Some [''id'']\<rparr>)]"

text \<open>An array of objects with a nested schema and no \<open>required\<close> list.\<close>

definition children_only_map :: schema where
  "children_only_map = map_of
     [(''d'', entry\<lparr>type := Some ''object'', isArray := True, childType := Some ''object'',
         children := True\<rparr>)]"

definition example_conf :: jsval where
  "example_conf = JObj [(''skipValidations'', JBool True)]"

definition example_data :: jsval where
  "example_data =
     JObj [(''global'', JObj [(''user'', JObj [(''yob'', JNum (Fin 1985))])]),
           (''bidder'', JObj [])]"

text \<open>A browser in which the opt-out cookie is set.\<close>

definition optout_storage :: storage where
  "optout_storage = \<lparr>cookiesAreEnabled = True,
     getCookie = (\<lambda>name. if name = ''_pubcid_optout'' then Some ''1'' else None),
     hasLocalStorage = False, getDataFromLocalStorage = (\<lambda>name. None)\<rparr>"

text \<open>The names the entry at a path requires; none when there is no entry or no list.\<close>

definition required_names :: "schema \<Rightarrow> string \<Rightarrow> string list" where
  "required_names ORTB_MAP path =
     (case ORTB_MAP path of
        None \<Rightarrow> []
      | Some mapping \<Rightarrow> (case required mapping of None \<Rightarrow> [] | Some keys \<Rightarrow> keys))"


text \<open>An element of \<open>user.data\<close> that meets the example table.\<close>

definition good_datum :: jsval where
  "good_datum = JObj [(''name'', JStr ''n''), (''segment'', JArr [JObj [(''id'', JStr ''a'')]])]"

subsection \<open>The stages of the two functions, by name\<close>

text \<open>
  The callbacks of \<open>validateFpd\<close> and \<open>filterArrayData\<close> as constants of their own, for the
  proofs: which keys the two filters of \<open>validateFpd\<close> keep, the value its reduce computes
  for a key and what it does with it; the type test and the required test of
  \<open>filterArrayData\<close> and the step of its reduce.
\<close>

definition kept_key :: "engine \<Rightarrow> schema \<Rightarrow> jsval \<Rightarrow> string \<Rightarrow> string \<Rightarrow> bool" where
  "kept_key E ORTB_MAP fpd path key =
     (key \<noteq> [] \<and>
      (case ORTB_MAP (path @ key) of
         None \<Rightarrow> True
       | Some mapping \<Rightarrow>
           \<not> invalid mapping \<and>
           typeValidation (read E fpd key) \<lparr>type = type mapping, isArray = isArray mapping\<rparr>))"

definition field_value ::
  "engine \<Rightarrow> schema \<Rightarrow> bool \<Rightarrow> descriptor \<Rightarrow> jsval \<Rightarrow> string \<Rightarrow> string \<Rightarrow> string \<Rightarrow> jsval res" where
  "field_value E ORTB_MAP optout mapping v path parent key =
     (if type mapping = Some ''object'' \<and> \<not> isArray mapping
      then validateFpd E ORTB_MAP optout v (path @ key @ ''.children.'') (parent @ key @ ''.'')
      else if isArray mapping \<and> declared (childType mapping)
      then filterArrayData E ORTB_MAP optout v
             \<lparr>type = childType mapping, isArray = childisArray mapping\<rparr> (path @ key) (parent @ key)
      else Inr (v, []))"

definition field_step ::
  "engine \<Rightarrow> schema \<Rightarrow> bool \<Rightarrow> jsval \<Rightarrow> string \<Rightarrow> string \<Rightarrow>
   (string \<times> jsval) list \<Rightarrow> string \<Rightarrow> nat \<Rightarrow> (string \<times> jsval) list res" where
  "field_step E ORTB_MAP optout fpd path parent result key i =
     (case ORTB_MAP (path @ key) of
        None \<Rightarrow> Inr (set_prop result key (read E fpd key), [])
      | Some mapping \<Rightarrow>
          if optoutApplies mapping \<and> optout then Inr (result, [OptoutFound parent key])
          else
            bind_res (field_value E ORTB_MAP optout mapping (read E fpd key) path parent key)
              (\<lambda>modified.
            if \<not> isEmptyData modified then Inr (set_prop result key modified, [])
            else Inr (result, [EmptyData parent key])))"

definition type_ok :: "shape \<Rightarrow> jsval \<Rightarrow> bool" where
  "type_ok child v =
     (typeValidation v \<lparr>type = type child, isArray = isArray child\<rparr> \<and>
      Array_isArray v = isArray child)"

definition required_stage :: "engine \<Rightarrow> schema \<Rightarrow> string \<Rightarrow> string \<Rightarrow> jsval \<Rightarrow> nat \<Rightarrow> bool res" where
  "required_stage E ORTB_MAP path parent index i =
     (case ORTB_MAP path of
        None \<Rightarrow> Inr (True, [])
      | Some mapping \<Rightarrow>
          (case required mapping of
             None \<Rightarrow> Inr (True, [])
           | Some keys \<Rightarrow> getRequiredData E index (Some keys) parent i))"

definition elem_step ::
  "engine \<Rightarrow> schema \<Rightarrow> bool \<Rightarrow> shape \<Rightarrow> string \<Rightarrow> string \<Rightarrow> jsval list \<Rightarrow> jsval \<Rightarrow> nat \<Rightarrow> jsval list res" where
  "elem_step E ORTB_MAP optout child path parent result v i =
     (if type child = Some ''string'' then Inr (result @ [v], [])
      else if type child = Some ''object'' then
        (case ORTB_MAP path of
           None \<Rightarrow> Inr (result @ [v], [])
         | Some mapping \<Rightarrow>
             if children mapping then
               bind_res (validateFpd E ORTB_MAP optout v (path @ ''.children.'') (parent @ ''.''))
                 (\<lambda>validObject.
               if Object_keys validObject \<noteq> [] then
                 bind_res (getRequiredData E validObject (required mapping) parent i)
                   (\<lambda>requiredCheck.
                 if requiredCheck then Inr (result @ [validObject], [])
                 else Inr (result, [ElementShape parent i (type child)]))
               else Inr (result, [ElementShape parent i (type child)]))
             else Inr (result @ [v], []))
      else Inr (result, [ElementShape parent i (type child)]))"

subsection \<open>Required names\<close>

text \<open>
  A value holds a name when reading the name from it succeeds and gives a value that is not
  empty by the emptiness rule.
\<close>

definition holds :: "engine \<Rightarrow> jsval \<Rightarrow> string \<Rightarrow> bool" where
  "holds E obj name = (case get_prop E obj name of Inl e \<Rightarrow> False | Inr v \<Rightarrow> \<not> isEmptyData v)"

fun elements :: "jsval \<Rightarrow> jsval list" where
  "elements (JArr xs) = xs"
| "elements v = []"

text \<open>
  A tree placed at a schema path meets the required lists of the arrays in it.  At a field
  whose entry is an array entry that names the type of its elements (\<open>childType\<close>), the value
  is an array and each of its elements holds every name the entry requires.  The same is
  asked inside every object the traversal validates: the value of a field whose entry is an
  object entry, and the elements of an array of objects with a nested schema, both looked up
  under \<open>path @ key @ ''.children.''\<close>.  Nothing is asked of a field without an entry, of the
  required list of an object entry, or of an array entry without \<open>childType\<close>.
\<close>

fun required_met :: "engine \<Rightarrow> schema \<Rightarrow> string \<Rightarrow> jsval \<Rightarrow> bool" where
  "required_met E ORTB_MAP path (JObj kvs) =
     list_all (\<lambda>(key, v).
       case ORTB_MAP (path @ key) of
         None \<Rightarrow> True
       | Some mapping \<Rightarrow>
           if type mapping = Some ''object'' \<and> \<not> isArray mapping
           then required_met E ORTB_MAP (path @ key @ ''.children.'') v
           else if isArray mapping \<and> declared (childType mapping)
           then Array_isArray v \<and>
                list_all (\<lambda>e. list_all (holds E e) (required_names ORTB_MAP (path @ key)))
                  (elements v) \<and>
                (if childType mapping = Some ''object'' \<and> children mapping
                 then required_met E ORTB_MAP (path @ key @ ''.children.'') v
                 else True)
           else True) kvs"
| "required_met E ORTB_MAP path (JArr xs) = list_all (required_met E ORTB_MAP path) xs"
| "required_met E ORTB_MAP path v = True"

definition field_met :: "engine \<Rightarrow> schema \<Rightarrow> string \<Rightarrow> string \<times> jsval \<Rightarrow> bool" where
  "field_met E ORTB_MAP path = (\<lambda>(key, v).
       case ORTB_MAP (path @ key) of
         None \<Rightarrow> True
       | Some mapping \<Rightarrow>
           if type mapping = Some ''object'' \<and> \<not> isArray mapping
           then required_met E ORTB_MAP (path @ key @ ''.children.'') v
           else if isArray mapping \<and> declared (childType mapping)
           then Array_isArray v \<and>
                list_all (\<lambda>e. list_all (holds E e) (required_names ORTB_MAP (path @ key)))
                  (elements v) \<and>
                (if childType mapping = Some ''object'' \<and> children mapping
                 then required_met E ORTB_MAP (path @ key @ ''.children.'') v
                 else True)
           else True)"

text \<open>An array entry with a required list that does not name the type of its elements.\<close>

definition untyped_required_map :: schema where
  "untyped_required_map = map_of
     [(''d'', entry\<lparr>type := Some ''object'', isArray := True, required := Some [''id'']\<rparr>)]"

subsection \<open>Redaction\<close>

text \<open>
  A tree placed at a schema path holds no redacted field: no field of it has a descriptor
  with \<open>optoutApplies\<close>, where the descriptor of the field \<open>key\<close> of an object at \<open>path\<close> is the
  entry at \<open>path @ key\<close> and, when that entry declares \<open>children\<close>, the fields of the value
  (of its elements, for an array) are looked up under \<open>path @ key @ ''.children.''\<close>.
\<close>

fun no_redacted :: "schema \<Rightarrow> string \<Rightarrow> jsval \<Rightarrow> bool" where
  "no_redacted ORTB_MAP path (JObj kvs) =
     list_all (\<lambda>(key, v).
       case ORTB_MAP (path @ key) of
         None \<Rightarrow> True
       | Some mapping \<Rightarrow>
           \<not> optoutApplies mapping \<and>
           (if children mapping then no_redacted ORTB_MAP (path @ key @ ''.children.'') v
            else True)) kvs"
| "no_redacted ORTB_MAP path (JArr xs) = list_all (no_redacted ORTB_MAP path) xs"
| "no_redacted ORTB_MAP path v = True"

definition field_clear :: "schema \<Rightarrow> string \<Rightarrow> string \<times> jsval \<Rightarrow> bool" where
  "field_clear ORTB_MAP path = (\<lambda>(key, v).
       case ORTB_MAP (path @ key) of
         None \<Rightarrow> True
       | Some mapping \<Rightarrow>
           \<not> optoutApplies mapping \<and>
           (if children mapping then no_redacted ORTB_MAP (path @ key @ ''.children.'') v
            else True))"

text \<open>
  The specification's invariant of the table: an array entry with a nested schema also
  names the type of its elements.
\<close>

definition array_entries_typed :: "schema \<Rightarrow> bool" where
  "array_entries_typed ORTB_MAP =
     (\<forall>p m. ORTB_MAP p = Some m \<longrightarrow> isArray m \<longrightarrow> children m \<longrightarrow> declared (childType m))"

text \<open>A table that breaks the invariant.\<close>

definition untyped_array_map :: schema where
  "untyped_array_map = map_of
     [(''segments'', entry\<lparr>type := Some ''object'', isArray := True, children := True\<rparr>),
      (''segments.children.id'', entry\<lparr>type := Some ''string'', optoutApplies := True\<rparr>)]"

definition user_data :: jsval where
  "user_data =
     JObj [(''global'', JObj [(''user'',
              JObj [(''yob'', JNum (Fin 1985)), (''gender'', JStr ''f''), (''keywords'', JStr ''k'')])]),
           (''bidder'', JObj [(''bidderA'', JObj [(''user'', JObj [(''yob'', JNum (Fin 1985))])])])]"

subsection \<open>Idempotence\<close>

text \<open>
  No entry for an array of objects with a nested schema says that the elements are
  themselves arrays (\<open>childisArray\<close>).
\<close>

definition plain_object_elements :: "schema \<Rightarrow> bool" where
  "plain_object_elements ORTB_MAP =
     (\<forall>p m. ORTB_MAP p = Some m \<longrightarrow> isArray m \<longrightarrow> children m \<longrightarrow>
        childType m = Some ''object'' \<longrightarrow> \<not> childisArray m)"

text \<open>
  What makes a second run keep a field, or an element of an array, as it is: it passes the
  filters again and the reduce computes the same value for it.
\<close>

definition field_fixed :: "engine \<Rightarrow> schema \<Rightarrow> bool \<Rightarrow> string \<Rightarrow> string \<Rightarrow> string \<times> jsval \<Rightarrow> bool" where
  "field_fixed E ORTB_MAP optout path parent = (\<lambda>(key, v).
     key \<noteq> [] \<and> key \<noteq> ''__proto__'' \<and>
     (case ORTB_MAP (path @ key) of
        None \<Rightarrow> True
      | Some mapping \<Rightarrow>
          \<not> invalid mapping \<and>
          typeValidation v \<lparr>type = type mapping, isArray = isArray mapping\<rparr> \<and>
          \<not> (optoutApplies mapping \<and> optout) \<and> \<not> isEmptyData v \<and>
          (\<exists>w. field_value E ORTB_MAP optout mapping v path parent key = Inr (v, w))))"

definition elem_fixed :: "engine \<Rightarrow> schema \<Rightarrow> bool \<Rightarrow> shape \<Rightarrow> string \<Rightarrow> string \<Rightarrow> jsval \<Rightarrow> bool" where
  "elem_fixed E ORTB_MAP optout child path parent v =
     (type_ok child v \<and>
      (\<forall>j. \<exists>w. required_stage E ORTB_MAP path parent v j = Inr (True, w)) \<and>
      (\<forall>result j. \<exists>w. elem_step E ORTB_MAP optout child path parent result v j = Inr (result @ [v], w)))"

text \<open>A table with an array of arrays that has a nested schema, and data for it.\<close>

definition nested_arrays_map :: schema where
  "nested_arrays_map = map_of
     [(''d'', entry\<lparr>type := Some ''object'', isArray := True, childType := Some ''object'',
         childisArray := True, children := True, required := Some []\<rparr>)]"

definition nested_data :: jsval where
  "nested_data = JObj [(''global'', JObj [(''d'', JArr [JArr [JNum (Fin 1)]])]), (''bidder'', JObj [])]"

text \<open>The result of validating \<open>user_data\<close> against the example table when the opt-out flag is set.\<close>

definition validated_user_data :: jsval where
  "validated_user_data =
     JObj [(''global'', JObj [(''user'', JObj [(''keywords'', JStr ''k'')])]),
           (''bidder'', JObj [(''bidderA'', JObj [])])]"

section \<open>Auxiliary facts\<close>

lemmas eval_defs =
  validateFpd.simps filterArrayData.simps(1) Array_filter_def Array_reduce_def Object_keys_def
  read_def get_prop_def set_prop_def typeValidation_def isEmptyData_def getRequiredData_def
  declared_def entry_def standard_engine_def object_members_def array_members_def
  string_members_def number_members_def function_members_def

lemma bind_res_Inr:
  "bind_res m f = Inr (b, w) \<longleftrightarrow>
     (\<exists>a w1 w2. m = Inr (a, w1) \<and> f a = Inr (b, w2) \<and> w = w1 @ w2)"
  by (auto simp: bind_res_def split: sum.splits)

lemma bind_res_simps [simp]:
  "bind_res (Inl e) f = Inl e"
  "bind_res (Inr (a, w)) f = (case f a of Inl e \<Rightarrow> Inl e | Inr (b, w') \<Rightarrow> Inr (b, w @ w'))"
  by (simp_all add: bind_res_def)

subsection \<open>The type check on objects\<close>

text \<open>For the type \<open>object\<close> the check accepts the structured values of the right array-ness
  and, as a non-array, \<open>null\<close>.\<close>

lemma typeValidation_object_iff:
  "typeValidation v \<lparr>type = Some ''object'', isArray = b\<rparr> \<longleftrightarrow>
     (structured v \<or> v = JNull) \<and> Array_isArray v = b"
  by (cases v) (auto simp: typeValidation_def)

subsection \<open>The required check in closed form\<close>

lemma required_forEach_eq:
  "obj \<noteq> JNull \<Longrightarrow> obj \<noteq> JUndefined \<Longrightarrow>
   required_forEach E obj parent i keys (check, warns) =
     Inr (check \<and> list_all (required_ok E obj) keys,
          warns @ map (MissingRequired parent i) (filter (\<lambda>k. \<not> required_ok E obj k) keys))"
  by (induction keys arbitrary: check warns) (auto simp: get_prop_def required_ok_def)

lemma required_forEach_nullish:
  "obj = JNull \<or> obj = JUndefined \<Longrightarrow>
   required_forEach E obj parent i keys acc = (if keys = [] then Inr acc else Inl TypeError)"
  by (cases keys; cases acc) (auto simp: get_prop_def)

lemma getRequiredData_eq:
  "obj \<noteq> JNull \<Longrightarrow> obj \<noteq> JUndefined \<Longrightarrow>
   getRequiredData E obj (Some keys) parent i =
     Inr (list_all (required_ok E obj) keys,
          map (MissingRequired parent i) (filter (\<lambda>k. \<not> required_ok E obj k) keys))"
  by (simp add: getRequiredData_def required_forEach_eq)

lemma getRequiredData_True:
  assumes "getRequiredData E obj (Some keys) parent i = Inr (True, w)"
  shows "list_all (required_ok E obj) keys"
proof (cases "obj = JNull \<or> obj = JUndefined")
  case True
  with assms have "keys = []"
    by (auto simp: getRequiredData_def required_forEach_nullish split: if_splits)
  then show ?thesis by simp
next
  case False
  with assms show ?thesis by (simp add: getRequiredData_eq)
qed

lemma required_ok_iff:
  "required_ok E obj key \<longleftrightarrow>
     \<not> isEmptyData (read E obj key) \<and> read E obj key \<noteq> JNum (Fin 0) \<and> read E obj key \<noteq> JNum NaN"
proof (cases "read E obj key")
  case (JNum n)
  then show ?thesis by (cases n) (auto simp: required_ok_def isEmptyData_def)
qed (auto simp: required_ok_def isEmptyData_def)

subsection \<open>Iteration with pure callbacks, and invariants of a reduce\<close>



lemma reduce_from_invariant:
  assumes "reduce_from i f xs a = Inr (r, w)" and "I a"
    and step: "\<And>a x j a' w'. x \<in> set xs \<Longrightarrow> I a \<Longrightarrow> f a x j = Inr (a', w') \<Longrightarrow> I a'"
  shows "I r"
  using assms(1,2) step
proof (induction xs arbitrary: i a w)
  case Nil
  then show ?case by simp
next
  case (Cons x xs)
  from Cons.prems(1) obtain a' w1 w2 where
    fx: "f a x i = Inr (a', w1)" and rest: "reduce_from (Suc i) f xs a' = Inr (r, w2)"
    by (auto simp: bind_res_Inr)
  have "I a'" using Cons.prems(3) [of x a i a' w1] Cons.prems(2) fx by simp
  moreover have "\<And>a y j a' w'. y \<in> set xs \<Longrightarrow> I a \<Longrightarrow> f a y j = Inr (a', w') \<Longrightarrow> I a'"
    using Cons.prems(3) by (meson list.set_intros(2))
  ultimately show ?case using Cons.IH [OF rest] by blast
qed




lemma Array_reduce_invariant:
  assumes "Array_reduce f xs a = Inr (r, w)" and "I a"
    and "\<And>a x j a' w'. x \<in> set xs \<Longrightarrow> I a \<Longrightarrow> f a x j = Inr (a', w') \<Longrightarrow> I a'"
  shows "I r"
  using assms unfolding Array_reduce_def by (rule reduce_from_invariant)

subsection \<open>Induction over a value and its parts\<close>

lemma value_induct [case_names validateFpd filterArrayData not_array]:
  fixes P :: "jsval \<Rightarrow> string \<Rightarrow> string \<Rightarrow> bool"
    and Q :: "jsval \<Rightarrow> shape \<Rightarrow> string \<Rightarrow> string \<Rightarrow> bool"
  assumes V: "\<And>fpd path parent.
      (\<And>key. key \<in> set (Object_keys fpd) \<Longrightarrow> typeof (read E fpd key) = ''object'' \<Longrightarrow>
         P (read E fpd key) (path @ key @ ''.children.'') (parent @ key @ ''.'')) \<Longrightarrow>
      (\<And>key child. key \<in> set (Object_keys fpd) \<Longrightarrow>
         Q (read E fpd key) child (path @ key) (parent @ key)) \<Longrightarrow>
      P fpd path parent"
    and A: "\<And>arr child path parent.
      (\<And>v. v \<in> set arr \<Longrightarrow> P v (path @ ''.children.'') (parent @ ''.'')) \<Longrightarrow>
      Q (JArr arr) child path parent"
    and N: "\<And>v child path parent. \<not> Array_isArray v \<Longrightarrow> Q v child path parent"
  shows "P fpd path parent \<and> Q arr child path' parent'"
proof -
  have both: "(\<forall>path parent. P v path parent) \<and> (\<forall>child path parent. Q v child path parent)" for v
  proof (induction v rule: measure_induct_rule [of size])
    case (less v)
    have Qle: "Q u child path parent" if "size u \<le> size v" for u child path parent
    proof (cases "Array_isArray u")
      case False
      then show ?thesis by (rule N)
    next
      case True
      then obtain xs where u: "u = JArr xs" by (cases u) simp_all
      show ?thesis unfolding u
      proof (rule A)
        fix x assume "x \<in> set xs"
        then have "size x < size u" unfolding u by (rule size_elem_less)
        with that less.IH [of x] show "P x (path @ ''.children.'') (parent @ ''.'')" by simp
      qed
    qed
    have "P v path parent" for path parent
    proof (rule V)
      fix key assume "key \<in> set (Object_keys v)" and "typeof (read E v key) = ''object''"
      then have "size (read E v key) < size v" by (rule size_read_less)
      then show "P (read E v key) (path @ key @ ''.children.'') (parent @ key @ ''.'')"
        using less.IH by simp
    next
      fix key child
      assume "key \<in> set (Object_keys v)"
      then show "Q (read E v key) child (path @ key) (parent @ key)"
        by (intro Qle size_read_le)
    qed
    then show ?case using Qle by simp
  qed
  show ?thesis using both by simp
qed

subsection \<open>Closed forms of the two functions\<close>

lemma filter_from_filter:
  assumes "\<And>x j. x \<in> set xs \<Longrightarrow> \<exists>w. f x j = Inr (p x, w)"
  shows "\<exists>w. filter_from i f xs = Inr (filter p xs, w)"
  using assms
proof (induction xs arbitrary: i)
  case Nil
  show ?case by simp
next
  case (Cons x xs)
  from Cons.prems [of x i] obtain w1 where 1: "f x i = Inr (p x, w1)" by auto
  from Cons.IH [of "Suc i"] Cons.prems obtain w2 where
    2: "filter_from (Suc i) f xs = Inr (filter p xs, w2)" by (meson list.set_intros(2))
  show ?case by (simp add: 1 2)
qed

lemma validateFpd_closed:
  assumes "truthy fpd"
  shows "(\<exists>w. validateFpd E ORTB_MAP optout fpd path parent = Inr (out, w)) \<longleftrightarrow>
     (\<exists>result w. Array_reduce (field_step E ORTB_MAP optout fpd path parent)
         (filter (kept_key E ORTB_MAP fpd path) (Object_keys fpd)) [] = Inr (result, w) \<and>
       out = JObj result)"
proof -
  let ?p1 = "\<lambda>key. key \<noteq> [] \<and> (case ORTB_MAP (path @ key) of None \<Rightarrow> True | Some mapping \<Rightarrow> \<not> invalid mapping)"
  let ?p2 = "\<lambda>key. key \<noteq> [] \<and> (case ORTB_MAP (path @ key) of None \<Rightarrow> True
      | Some mapping \<Rightarrow> typeValidation (read E fpd key) \<lparr>type = type mapping, isArray = isArray mapping\<rparr>)"
  have k: "filter ?p2 (filter ?p1 xs) = filter (kept_key E ORTB_MAP fpd path) xs" for xs
    by (induction xs) (auto simp: kept_key_def split: option.splits)
  obtain w1 where 1: "Array_filter (\<lambda>key i.
          case ORTB_MAP (path @ key) of
            None \<Rightarrow> Inr (key \<noteq> [], [])
          | Some mapping \<Rightarrow>
              if \<not> invalid mapping then Inr (key \<noteq> [], [])
              else Inr (False, [InvalidProperty parent key])) (Object_keys fpd) =
       Inr (filter ?p1 (Object_keys fpd), w1)"
    unfolding Array_filter_def
    using filter_from_filter [where p = ?p1 and xs = "Object_keys fpd" and i = 0]
    by (force split: option.splits)
  obtain w2 where 2: "Array_filter (\<lambda>key i.
          case ORTB_MAP (path @ key) of
            None \<Rightarrow> Inr (key \<noteq> [], [])
          | Some mapping \<Rightarrow>
              if typeValidation (read E fpd key) \<lparr>type = type mapping, isArray = isArray mapping\<rparr>
              then Inr (key \<noteq> [], [])
              else Inr (False, [PropertyType parent key
                     (if isArray mapping then Some ''array'' else type mapping)])) (filter ?p1 (Object_keys fpd)) =
       Inr (filter (kept_key E ORTB_MAP fpd path) (Object_keys fpd), w2)"
    unfolding Array_filter_def k [symmetric]
    using filter_from_filter [where p = ?p2 and xs = "filter ?p1 (Object_keys fpd)" and i = 0]
    by (force split: option.splits)
  have step: "(\<lambda>result key i.
          case ORTB_MAP (path @ key) of
            None \<Rightarrow> Inr (set_prop result key (read E fpd key), [])
          | Some mapping \<Rightarrow>
              if optoutApplies mapping \<and> optout then Inr (result, [OptoutFound parent key])
              else
                bind_res
                  (if type mapping = Some ''object'' \<and> \<not> isArray mapping
                   then validateFpd E ORTB_MAP optout (read E fpd key)
                          (path @ key @ ''.children.'') (parent @ key @ ''.'')
                   else if isArray mapping \<and> declared (childType mapping)
                   then filterArrayData E ORTB_MAP optout (read E fpd key)
                          \<lparr>type = childType mapping, isArray = childisArray mapping\<rparr>
                          (path @ key) (parent @ key)
                   else Inr (read E fpd key, [])) (\<lambda>modified.
                if \<not> isEmptyData modified then Inr (set_prop result key modified, [])
                else Inr (result, [EmptyData parent key]))) = field_step E ORTB_MAP optout fpd path parent"
    by (intro ext) (simp add: field_step_def field_value_def split: option.splits)
  show ?thesis
    using assms
    apply (subst validateFpd.simps)
    apply (simp only: 1 2 step if_False not_not bind_res_simps)
    apply (auto simp: bind_res_Inr split: sum.splits prod.splits)
    done
qed

lemma filterArrayData_closed:
  "(\<exists>w. filterArrayData E ORTB_MAP optout (JArr arr) child path parent = Inr (out, w)) \<longleftrightarrow>
     (\<exists>arr2 w2 result w3.
        Array_filter (required_stage E ORTB_MAP path parent) (filter (type_ok child) arr) = Inr (arr2, w2) \<and>
        Array_reduce (elem_step E ORTB_MAP optout child path parent) arr2 [] = Inr (result, w3) \<and>
        out = JArr result)"
proof -
  obtain w1 where 1: "Array_filter (\<lambda>index i.
       let check = typeValidation index \<lparr>type = type child, isArray = isArray child\<rparr> in
       if check \<and> Array_isArray index = isArray child then Inr (True, [])
       else Inr (False, [ElementType parent i (type child)])) arr =
     Inr (filter (type_ok child) arr, w1)"
    unfolding Array_filter_def
    using filter_from_filter [where p = "type_ok child" and xs = arr and i = 0]
    by (force simp: type_ok_def)
  have 2: "(\<lambda>index i.
       case ORTB_MAP path of
         None \<Rightarrow> Inr (True, [])
       | Some mapping \<Rightarrow>
           (case required mapping of
              None \<Rightarrow> Inr (True, [])
            | Some keys \<Rightarrow> getRequiredData E index (Some keys) parent i)) =
     required_stage E ORTB_MAP path parent"
    by (intro ext) (simp add: required_stage_def)
  have 3: "(\<lambda>result v i.
       if type child = Some ''string'' then Inr (result @ [v], [])
       else if type child = Some ''object'' then
         (case ORTB_MAP path of
            None \<Rightarrow> Inr (result @ [v], [])
          | Some mapping \<Rightarrow>
              if children mapping then
                bind_res (validateFpd E ORTB_MAP optout v (path @ ''.children.'') (parent @ ''.''))
                  (\<lambda>validObject.
                if Object_keys validObject \<noteq> [] then
                  bind_res (getRequiredData E validObject (required mapping) parent i)
                    (\<lambda>requiredCheck.
                  if requiredCheck then Inr (result @ [validObject], [])
                  else Inr (result, [ElementShape parent i (type child)]))
                else Inr (result, [ElementShape parent i (type child)]))
              else Inr (result @ [v], []))
       else Inr (result, [ElementShape parent i (type child)])) =
     elem_step E ORTB_MAP optout child path parent"
    by (intro ext) (simp add: elem_step_def)
  show ?thesis
    apply (subst filterArrayData.simps(1))
    apply (simp only: 1 2 3 bind_res_simps)
    apply (auto simp: bind_res_Inr split: sum.splits prod.splits)
    done
qed

lemma validateFpd_falsy:
  "\<not> truthy fpd \<Longrightarrow> validateFpd E ORTB_MAP optout fpd path parent = Inr (JObj [], [])"
  by (subst validateFpd.simps) simp

lemma filterArrayData_not_array:
  "\<not> Array_isArray arr \<Longrightarrow> filterArrayData E ORTB_MAP optout arr child path parent = Inl TypeError"
  by (cases arr) simp_all

subsection \<open>Redaction along the traversal\<close>

lemma list_all_update:
  "list_all Pp a \<Longrightarrow> Pp (k, v) \<Longrightarrow> list_all Pp (AList.update k v a)"
  by (induction a) auto

lemma list_all_set_prop:
  "list_all Pp a \<Longrightarrow> Pp (k, v) \<Longrightarrow> list_all Pp (set_prop a k v)"
  by (simp add: set_prop_def list_all_update)

lemma typeValidation_scalar:
  assumes "typeValidation v \<lparr>type = t, isArray = b\<rparr>" and "t \<noteq> Some ''object''"
  shows "\<not> structured v"
  using assms by (cases v) (auto simp: typeValidation_def split: if_splits)

lemma no_redacted_scalar: "\<not> structured v \<Longrightarrow> no_redacted ORTB_MAP path v"
  by (cases v) simp_all

lemma no_redacted_obj: "no_redacted ORTB_MAP path (JObj kvs) = list_all (field_clear ORTB_MAP path) kvs"
  by (simp add: field_clear_def)

lemma no_redacted_traversal:
  assumes inv: "\<And>p m. ORTB_MAP p = Some m \<Longrightarrow> isArray m \<Longrightarrow> children m \<Longrightarrow> declared (childType m)"
  shows "(\<forall>out w. validateFpd E ORTB_MAP True fpd path parent = Inr (out, w) \<longrightarrow>
            no_redacted ORTB_MAP path out) \<and>
         (\<forall>out w m. filterArrayData E ORTB_MAP True arr child path' parent' = Inr (out, w) \<longrightarrow>
            ORTB_MAP path' = Some m \<longrightarrow> children m \<longrightarrow>
            no_redacted ORTB_MAP (path' @ ''.children.'') out)"
proof (rule value_induct [where E = E and
      P = "\<lambda>fpd path parent. \<forall>out w. validateFpd E ORTB_MAP True fpd path parent = Inr (out, w) \<longrightarrow>
            no_redacted ORTB_MAP path out" and
      Q = "\<lambda>arr child path' parent'. \<forall>out w m.
            filterArrayData E ORTB_MAP True arr child path' parent' = Inr (out, w) \<longrightarrow>
            ORTB_MAP path' = Some m \<longrightarrow> children m \<longrightarrow>
            no_redacted ORTB_MAP (path' @ ''.children.'') out"], goal_cases)
  case IH: (1 fpd path parent)
  show ?case
  proof (intro allI impI)
  fix out w
  assume run: "validateFpd E ORTB_MAP True fpd path parent = Inr (out, w)"
  show "no_redacted ORTB_MAP path out"
  proof (cases "truthy fpd")
    case False
    with run show ?thesis by (auto simp: validateFpd_falsy)
  next
    case True
    from run obtain result w3 where
      red: "Array_reduce (field_step E ORTB_MAP True fpd path parent)
         (filter (kept_key E ORTB_MAP fpd path) (Object_keys fpd)) [] = Inr (result, w3)"
      and out: "out = JObj result"
      using validateFpd_closed [OF True, where E = E and ORTB_MAP = ORTB_MAP and optout = True
          and path = path and parent = parent and out = out] by blast
    have "list_all (field_clear ORTB_MAP path) result"
    proof (rule Array_reduce_invariant [OF red])
      show "list_all (field_clear ORTB_MAP path) []" by simp
    next
      fix a key j a' wa
      assume key: "key \<in> set (filter (kept_key E ORTB_MAP fpd path) (Object_keys fpd))"
        and a: "list_all (field_clear ORTB_MAP path) a"
        and step: "field_step E ORTB_MAP True fpd path parent a key j = Inr (a', wa)"
      from key have own: "key \<in> set (Object_keys fpd)" by simp
      show "list_all (field_clear ORTB_MAP path) a'"
      proof (cases "ORTB_MAP (path @ key)")
        case None
        then have "field_clear ORTB_MAP path (key, read E fpd key)"
          by (simp add: field_clear_def)
        moreover from step None have "a' = set_prop a key (read E fpd key)"
          by (simp add: field_step_def)
        ultimately show ?thesis using a by (simp add: list_all_set_prop)
      next
        case (Some mapping)
        from key Some have tv: "typeValidation (read E fpd key)
            \<lparr>type = type mapping, isArray = isArray mapping\<rparr>"
          by (simp add: kept_key_def)
        show ?thesis
        proof (cases "optoutApplies mapping")
          case True
          with step Some a show ?thesis by (simp add: field_step_def)
        next
          case False
          from step Some False obtain modified wm where
            fv: "field_value E ORTB_MAP True mapping (read E fpd key) path parent key = Inr (modified, wm)"
            and a': "a' = set_prop a key modified \<or> a' = a"
            by (auto simp: field_step_def bind_res_Inr split: if_splits)
          have "no_redacted ORTB_MAP (path @ key @ ''.children.'') modified" if ch: "children mapping"
          proof (cases "type mapping = Some ''object'' \<and> \<not> isArray mapping")
            case True
            with tv have "typeof (read E fpd key) = ''object''"
              by (simp add: typeValidation_def)
            from IH(1) [OF own this] fv True show ?thesis
              by (simp add: field_value_def)
          next
            case notobj: False
            show ?thesis
            proof (cases "isArray mapping \<and> declared (childType mapping)")
              case True
              with fv notobj have "filterArrayData E ORTB_MAP True (read E fpd key)
                  \<lparr>type = childType mapping, isArray = childisArray mapping\<rparr>
                  (path @ key) (parent @ key) = Inr (modified, wm)"
                by (simp add: field_value_def)
              with IH(2) [OF own, of "\<lparr>type = childType mapping, isArray = childisArray mapping\<rparr>"]
                Some ch
              show ?thesis by (simp add: append_assoc [symmetric] del: append_assoc)
            next
              case False
              with inv [OF Some _ ch] have "\<not> isArray mapping" by blast
              with notobj have "type mapping \<noteq> Some ''object''" by simp
              with tv have "\<not> structured (read E fpd key)" by (rule typeValidation_scalar)
              moreover from fv notobj False have "modified = read E fpd key"
                by (simp add: field_value_def)
              ultimately show ?thesis by (simp add: no_redacted_scalar)
            qed
          qed
          with Some False have "field_clear ORTB_MAP path (key, modified)"
            by (simp add: field_clear_def)
          with a a' show ?thesis by (auto intro: list_all_set_prop)
        qed
      qed
    qed
    then show ?thesis by (simp only: out no_redacted_obj)
  qed
  qed
next
  case IH: (2 arr child path parent)
  show ?case
  proof (intro allI impI)
  fix out' w' m'
  assume run: "filterArrayData E ORTB_MAP True (JArr arr) child path parent = Inr (out', w')"
    and entry: "ORTB_MAP path = Some m'" and ch: "children m'"
  from run obtain arr2 w2 result w3 where
    s2: "Array_filter (required_stage E ORTB_MAP path parent) (filter (type_ok child) arr) = Inr (arr2, w2)"
    and s3: "Array_reduce (elem_step E ORTB_MAP True child path parent) arr2 [] = Inr (result, w3)"
    and out: "out' = JArr result"
    using filterArrayData_closed [where E = E and ORTB_MAP = ORTB_MAP and optout = True and arr = arr
          and child = child and path = path and parent = parent and out = out'] by blast
  have typed: "type_ok child v" if "v \<in> set arr2" for v
    using Array_filter_subset [OF s2] that by auto
  have "list_all (no_redacted ORTB_MAP (path @ ''.children.'')) result"
  proof (rule Array_reduce_invariant [OF s3])
    show "list_all (no_redacted ORTB_MAP (path @ ''.children.'')) []" by simp
  next
    fix a v j a' wa
    assume v: "v \<in> set arr2"
      and a: "list_all (no_redacted ORTB_MAP (path @ ''.children.'')) a"
      and step: "elem_step E ORTB_MAP True child path parent a v j = Inr (a', wa)"
    have v_arr: "v \<in> set arr" using typed Array_filter_subset [OF s2] v by auto
    show "list_all (no_redacted ORTB_MAP (path @ ''.children.'')) a'"
    proof (cases "type child = Some ''object''")
      case True
      with step entry ch obtain validObject wv where
        "validateFpd E ORTB_MAP True v (path @ ''.children.'') (parent @ ''.'') = Inr (validObject, wv)"
        and "a' = a @ [validObject] \<or> a' = a"
        by (auto simp: elem_step_def bind_res_Inr split: if_splits)
      with IH [OF v_arr] a show ?thesis by auto
    next
      case False
      from typed [OF v] False have "\<not> structured v"
        unfolding type_ok_def using typeValidation_scalar by blast
      with step False a show ?thesis
        by (auto simp: elem_step_def no_redacted_scalar split: if_splits)
    qed
  qed
  then show "no_redacted ORTB_MAP (path @ ''.children.'') out'" by (simp add: out)
  qed
next
  case (3 v child path parent)
  then show ?case by (simp add: filterArrayData_not_array)
qed

lemma map_res_elems:
  "map_res f xs = Inr (ys, w) \<Longrightarrow> y \<in> set ys \<Longrightarrow> \<exists>x\<in>set xs. \<exists>w'. f x = Inr (y, w')"
proof (induction xs arbitrary: ys w)
  case Nil
  then show ?case by simp
next
  case (Cons x xs)
  then show ?case by (fastforce simp: bind_res_Inr)
qed

lemma fold_define_prop_all:
  "list_all Pp acc \<Longrightarrow> list_all Pp es \<Longrightarrow>
   list_all Pp (fold (\<lambda>(k, v) obj. define_prop obj k v) es acc)"
  by (induction es arbitrary: acc) (auto simp: define_prop_def list_all_update)

lemma Object_fromEntries_all: "list_all Pp es \<Longrightarrow> list_all Pp (Object_fromEntries es)"
  unfolding Object_fromEntries_def by (rule fold_define_prop_all) simp_all

lemma array_entries_typed_example: "array_entries_typed example_map"
  by (auto simp: array_entries_typed_def example_map_def entry_def declared_def split: if_splits)

subsection \<open>A second run over the result\<close>

lemma update_fresh: "k \<notin> fst ` set al \<Longrightarrow> AList.update k v al = al @ [(k, v)]"
  by (induction al) auto

lemma read_obj: "distinct (map fst kvs) \<Longrightarrow> (k, v) \<in> set kvs \<Longrightarrow> read E (JObj kvs) k = v"
  by (simp add: read_def)

lemma validateFpd_returns_obj:
  assumes "validateFpd E ORTB_MAP optout fpd path parent = Inr (out, w)"
  shows "\<exists>kvs. out = JObj kvs"
proof (cases "truthy fpd")
  case True
  with assms validateFpd_closed [OF True, where E = E and ORTB_MAP = ORTB_MAP and optout = optout
      and path = path and parent = parent and out = out] show ?thesis by blast
next
  case False
  with assms show ?thesis by (auto simp: validateFpd_falsy)
qed

lemma filterArrayData_returns_arr:
  assumes "filterArrayData E ORTB_MAP optout arr child path parent = Inr (out, w)"
  shows "\<exists>xs ys. arr = JArr xs \<and> out = JArr ys"
proof (cases "Array_isArray arr")
  case True
  then obtain xs where "arr = JArr xs" by (cases arr) simp_all
  with assms filterArrayData_closed [where E = E and ORTB_MAP = ORTB_MAP and optout = optout
      and arr = xs and child = child and path = path and parent = parent and out = out]
  show ?thesis by blast
next
  case False
  with assms show ?thesis by (simp add: filterArrayData_not_array)
qed

lemma reduce_fields_fixed:
  assumes d: "distinct (map fst (pre @ post))"
    and own: "\<And>k v. (k, v) \<in> set post \<Longrightarrow> read E fpd k = v"
    and fixed: "list_all (field_fixed E ORTB_MAP optout path parent) post"
  shows "\<exists>w. reduce_from i (field_step E ORTB_MAP optout fpd path parent) (map fst post) pre =
           Inr (pre @ post, w)"
  using assms
proof (induction post arbitrary: pre i)
  case Nil
  show ?case by simp
next
  case (Cons kv post)
  obtain k v where kv: "kv = (k, v)" by (cases kv)
  have v: "read E fpd k = v" using Cons.prems(2) [of k v] kv by simp
  have fresh: "k \<notin> fst ` set pre" using Cons.prems(1) kv by auto
  have kfix: "field_fixed E ORTB_MAP optout path parent (k, v)" using Cons.prems(3) kv by simp
  then have proto: "k \<noteq> ''__proto__''" by (simp add: field_fixed_def)
  have "\<exists>w1. field_step E ORTB_MAP optout fpd path parent pre k i = Inr (pre @ [(k, v)], w1)"
  proof (cases "ORTB_MAP (path @ k)")
    case None
    then show ?thesis by (simp add: field_step_def v set_prop_def proto update_fresh [OF fresh])
  next
    case (Some mapping)
    with kfix obtain wv where
      "field_value E ORTB_MAP optout mapping v path parent k = Inr (v, wv)"
      "\<not> (optoutApplies mapping \<and> optout)" "\<not> isEmptyData v"
      by (auto simp: field_fixed_def)
    with Some show ?thesis
      by (auto simp: field_step_def v set_prop_def proto update_fresh [OF fresh])
  qed
  then obtain w1 where 1: "field_step E ORTB_MAP optout fpd path parent pre k i = Inr (pre @ [(k, v)], w1)" ..
  have "\<exists>w. reduce_from (Suc i) (field_step E ORTB_MAP optout fpd path parent) (map fst post)
            (pre @ [(k, v)]) = Inr ((pre @ [(k, v)]) @ post, w)"
  proof (rule Cons.IH)
    show "distinct (map fst ((pre @ [(k, v)]) @ post))" using Cons.prems(1) kv by simp
    show "\<And>k' v'. (k', v') \<in> set post \<Longrightarrow> read E fpd k' = v'" using Cons.prems(2) by simp
    show "list_all (field_fixed E ORTB_MAP optout path parent) post" using Cons.prems(3) by simp
  qed
  then obtain w2 where 2: "reduce_from (Suc i) (field_step E ORTB_MAP optout fpd path parent)
      (map fst post) (pre @ [(k, v)]) = Inr (pre @ (k, v) # post, w2)" by auto
  show ?case by (simp add: kv 1 2)
qed

lemma fields_fixed_rerun:
  assumes d: "distinct (map fst result)"
    and fixed: "list_all (field_fixed E ORTB_MAP optout path parent) result"
  shows "\<exists>w. validateFpd E ORTB_MAP optout (JObj result) path parent = Inr (JObj result, w)"
proof -
  have own: "read E (JObj result) k = v" if "(k, v) \<in> set result" for k v
    using read_obj [OF d that] .
  have kept: "kept_key E ORTB_MAP (JObj result) path k" if "k \<in> set (map fst result)" for k
  proof -
    from that obtain v where kv: "(k, v) \<in> set result" by auto
    with fixed have "field_fixed E ORTB_MAP optout path parent (k, v)" by (auto simp: list_all_iff)
    then show ?thesis by (auto simp: field_fixed_def kept_key_def own [OF kv] split: option.splits)
  qed
  have keys: "filter (kept_key E ORTB_MAP (JObj result) path) (Object_keys (JObj result)) = map fst result"
    unfolding Object_keys_def own_entries.simps using kept by (simp add: filter_id_conv)
  from reduce_fields_fixed [where pre = "[]" and post = result and fpd = "JObj result" and E = E
      and ORTB_MAP = ORTB_MAP and optout = optout and path = path and parent = parent and i = 0]
    d own fixed
  obtain w where "Array_reduce (field_step E ORTB_MAP optout (JObj result) path parent) (map fst result) [] =
      Inr (result, w)"
    unfolding Array_reduce_def by auto
  with keys validateFpd_closed [where fpd = "JObj result" and E = E and ORTB_MAP = ORTB_MAP
      and optout = optout and path = path and parent = parent and out = "JObj result"]
  show ?thesis by auto
qed

lemma reduce_push:
  assumes "\<And>v acc j. v \<in> set xs \<Longrightarrow> \<exists>w. f acc v j = Inr (acc @ [v], w)"
  shows "\<exists>w. reduce_from i f xs acc = Inr (acc @ xs, w)"
  using assms
proof (induction xs arbitrary: i acc)
  case Nil
  show ?case by simp
next
  case (Cons x xs)
  from Cons.prems [of x acc i] obtain w1 where 1: "f acc x i = Inr (acc @ [x], w1)" by auto
  from Cons.IH [of "Suc i" "acc @ [x]"] Cons.prems obtain w2 where
    2: "reduce_from (Suc i) f xs (acc @ [x]) = Inr ((acc @ [x]) @ xs, w2)"
    by (meson list.set_intros(2))
  show ?case using 1 2 by simp
qed

lemma getRequiredData_any_index:
  assumes "getRequiredData E obj req parent j = Inr (True, w)"
  shows "getRequiredData E obj req parent j' = Inr (True, [])"
proof -
  from assms obtain keys where req: "req = Some keys"
    by (cases req) (simp_all add: getRequiredData_def)
  show ?thesis
  proof (cases "obj = JNull \<or> obj = JUndefined")
    case True
    with assms req have "keys = []"
      by (auto simp: getRequiredData_def required_forEach_nullish split: if_splits)
    then show ?thesis by (simp add: req getRequiredData_def)
  next
    case False
    with assms req have "list_all (required_ok E obj) keys" by (simp add: getRequiredData_eq)
    with False show ?thesis by (simp add: req getRequiredData_eq list_all_iff)
  qed
qed

lemma required_stage_any_index:
  assumes "required_stage E ORTB_MAP path parent v j = Inr (True, w)"
  shows "\<exists>w'. required_stage E ORTB_MAP path parent v j' = Inr (True, w')"
  using assms getRequiredData_any_index
  by (auto simp: required_stage_def split: option.splits)

lemma elems_fixed_rerun:
  assumes fixed: "list_all (elem_fixed E ORTB_MAP optout child path parent) result"
  shows "\<exists>w. filterArrayData E ORTB_MAP optout (JArr result) child path parent = Inr (JArr result, w)"
proof -
  have 1: "filter (type_ok child) result = result"
    using fixed by (simp add: filter_id_conv list_all_iff elem_fixed_def)
  have "\<exists>w. filter_from 0 (required_stage E ORTB_MAP path parent) result =
      Inr (filter (\<lambda>v. True) result, w)"
    by (rule filter_from_filter) (use fixed in \<open>auto simp: list_all_iff elem_fixed_def\<close>)
  then obtain w2 where 2: "Array_filter (required_stage E ORTB_MAP path parent) result = Inr (result, w2)"
    unfolding Array_filter_def by auto
  have "\<exists>w. reduce_from 0 (elem_step E ORTB_MAP optout child path parent) result [] =
      Inr ([] @ result, w)"
    by (rule reduce_push) (use fixed in \<open>auto simp: list_all_iff elem_fixed_def\<close>)
  then obtain w3 where 3: "Array_reduce (elem_step E ORTB_MAP optout child path parent) result [] =
      Inr (result, w3)"
    unfolding Array_reduce_def by auto
  show ?thesis
    using filterArrayData_closed [where E = E and ORTB_MAP = ORTB_MAP and optout = optout
        and arr = result and child = child and path = path and parent = parent
        and out = "JArr result"] 1 2 3
    by auto
qed

lemma typeValidation_array_object:
  "typeValidation (JArr xs) \<lparr>type = t, isArray = b\<rparr> \<Longrightarrow> t = Some ''object'' \<and> b"
  by (auto simp: typeValidation_def split: if_splits)

lemma distinct_set_prop: "distinct (map fst al) \<Longrightarrow> distinct (map fst (set_prop al k v))"
  by (simp add: set_prop_def distinct_update)

lemma idempotent_traversal:
  assumes plain: "\<And>p m. ORTB_MAP p = Some m \<Longrightarrow> isArray m \<Longrightarrow> children m \<Longrightarrow>
      childType m = Some ''object'' \<Longrightarrow> \<not> childisArray m"
  shows "(\<forall>out w. validateFpd E ORTB_MAP optout fpd path parent = Inr (out, w) \<longrightarrow>
            (\<exists>w'. validateFpd E ORTB_MAP optout out path parent = Inr (out, w'))) \<and>
         (\<forall>out w. filterArrayData E ORTB_MAP optout arr child path' parent' = Inr (out, w) \<longrightarrow>
            (\<forall>m. ORTB_MAP path' = Some m \<longrightarrow> children m \<longrightarrow> type child = Some ''object'' \<longrightarrow>
                 \<not> isArray child) \<longrightarrow>
            (\<exists>w'. filterArrayData E ORTB_MAP optout out child path' parent' = Inr (out, w')))"
proof (rule value_induct [where E = E and
      P = "\<lambda>fpd path parent. \<forall>out w. validateFpd E ORTB_MAP optout fpd path parent = Inr (out, w) \<longrightarrow>
            (\<exists>w'. validateFpd E ORTB_MAP optout out path parent = Inr (out, w'))" and
      Q = "\<lambda>arr child path' parent'. \<forall>out w.
            filterArrayData E ORTB_MAP optout arr child path' parent' = Inr (out, w) \<longrightarrow>
            (\<forall>m. ORTB_MAP path' = Some m \<longrightarrow> children m \<longrightarrow> type child = Some ''object'' \<longrightarrow>
                 \<not> isArray child) \<longrightarrow>
            (\<exists>w'. filterArrayData E ORTB_MAP optout out child path' parent' = Inr (out, w'))"],
    goal_cases)
  case IH: (1 fpd path parent)
  show ?case
  proof (intro allI impI)
    fix out w
    assume run: "validateFpd E ORTB_MAP optout fpd path parent = Inr (out, w)"
    show "\<exists>w'. validateFpd E ORTB_MAP optout out path parent = Inr (out, w')"
    proof (cases "truthy fpd")
      case False
      with run have "out = JObj []" by (auto simp: validateFpd_falsy)
      then show ?thesis
        using fields_fixed_rerun [where result = "[]" and E = E and ORTB_MAP = ORTB_MAP
            and optout = optout and path = path and parent = parent] by simp
    next
      case True
      from run obtain result w3 where
        red: "Array_reduce (field_step E ORTB_MAP optout fpd path parent)
           (filter (kept_key E ORTB_MAP fpd path) (Object_keys fpd)) [] = Inr (result, w3)"
        and out: "out = JObj result"
        using validateFpd_closed [OF True, where E = E and ORTB_MAP = ORTB_MAP and optout = optout
            and path = path and parent = parent and out = out] by blast
      have "distinct (map fst result) \<and> list_all (field_fixed E ORTB_MAP optout path parent) result"
      proof (rule Array_reduce_invariant [OF red])
        show "distinct (map fst []) \<and> list_all (field_fixed E ORTB_MAP optout path parent) []"
          by simp
      next
        fix a key j a' wa
        assume key: "key \<in> set (filter (kept_key E ORTB_MAP fpd path) (Object_keys fpd))"
          and a: "distinct (map fst a) \<and> list_all (field_fixed E ORTB_MAP optout path parent) a"
          and step: "field_step E ORTB_MAP optout fpd path parent a key j = Inr (a', wa)"
        from key have kept: "kept_key E ORTB_MAP fpd path key"
          and own: "key \<in> set (Object_keys fpd)" by simp_all
        have "a' = a \<or> (\<exists>v. a' = set_prop a key v \<and>
            (key \<noteq> ''__proto__'' \<longrightarrow> field_fixed E ORTB_MAP optout path parent (key, v)))"
        proof (cases "ORTB_MAP (path @ key)")
          case None
          with step kept show ?thesis
            by (auto simp: field_step_def field_fixed_def kept_key_def)
        next
          case (Some mapping)
          from kept Some have tv: "typeValidation (read E fpd key)
              \<lparr>type = type mapping, isArray = isArray mapping\<rparr>"
            and valid: "\<not> invalid mapping" and nonempty: "key \<noteq> []"
            by (simp_all add: kept_key_def)
          show ?thesis
          proof (cases "optoutApplies mapping \<and> optout")
            case True
            with step Some show ?thesis by (simp add: field_step_def)
          next
            case False
            from step Some False obtain modified wm where
              fv: "field_value E ORTB_MAP optout mapping (read E fpd key) path parent key =
                  Inr (modified, wm)"
              and a': "a' = a \<or> (a' = set_prop a key modified \<and> \<not> isEmptyData modified)"
              by (auto simp: field_step_def bind_res_Inr split: if_splits)
            have again: "typeValidation modified \<lparr>type = type mapping, isArray = isArray mapping\<rparr> \<and>
                (\<exists>w. field_value E ORTB_MAP optout mapping modified path parent key = Inr (modified, w))"
            proof (cases "type mapping = Some ''object'' \<and> \<not> isArray mapping")
              case True
              with fv have v1: "validateFpd E ORTB_MAP optout (read E fpd key)
                  (path @ key @ ''.children.'') (parent @ key @ ''.'') = Inr (modified, wm)"
                by (simp add: field_value_def)
              from tv True have "typeof (read E fpd key) = ''object''"
                by (simp add: typeValidation_def)
              from IH(1) [OF own this] v1 obtain w' where
                "validateFpd E ORTB_MAP optout modified
                  (path @ key @ ''.children.'') (parent @ key @ ''.'') = Inr (modified, w')"
                by blast
              moreover from validateFpd_returns_obj [OF v1] True
              have "typeValidation modified \<lparr>type = type mapping, isArray = isArray mapping\<rparr>"
                by (auto simp: typeValidation_def)
              ultimately show ?thesis using True by (auto simp: field_value_def)
            next
              case notobj: False
              show ?thesis
              proof (cases "isArray mapping \<and> declared (childType mapping)")
                case True
                with fv notobj have f1: "filterArrayData E ORTB_MAP optout (read E fpd key)
                    \<lparr>type = childType mapping, isArray = childisArray mapping\<rparr>
                    (path @ key) (parent @ key) = Inr (modified, wm)"
                  by (simp add: field_value_def)
                from filterArrayData_returns_arr [OF f1] obtain xs ys where
                  xs: "read E fpd key = JArr xs" and ys: "modified = JArr ys" by blast
                from tv xs have ty: "type mapping = Some ''object''"
                  using typeValidation_array_object by fastforce
                have local: "\<forall>m. ORTB_MAP (path @ key) = Some m \<longrightarrow> children m \<longrightarrow>
                    type \<lparr>type = childType mapping, isArray = childisArray mapping\<rparr> = Some ''object'' \<longrightarrow>
                    \<not> isArray \<lparr>type = childType mapping, isArray = childisArray mapping\<rparr>"
                  using plain [OF Some] True Some by auto
                from IH(2) [OF own, of "\<lparr>type = childType mapping, isArray = childisArray mapping\<rparr>"]
                  f1 local
                obtain w' where "filterArrayData E ORTB_MAP optout modified
                    \<lparr>type = childType mapping, isArray = childisArray mapping\<rparr>
                    (path @ key) (parent @ key) = Inr (modified, w')"
                  by blast
                with True notobj ty ys show ?thesis
                  by (auto simp: field_value_def typeValidation_def)
              next
                case False
                with fv notobj have "modified = read E fpd key" by (simp add: field_value_def)
                with tv False notobj show ?thesis by (auto simp: field_value_def)
              qed
            qed
            show ?thesis
            proof (cases "a' = a")
              case True
              then show ?thesis by simp
            next
              case neq: False
              with a' have "a' = set_prop a key modified" and "\<not> isEmptyData modified" by auto
              moreover have "field_fixed E ORTB_MAP optout path parent (key, modified)"
                if "key \<noteq> ''__proto__''"
                using that again Some valid nonempty False \<open>\<not> isEmptyData modified\<close>
                by (simp add: field_fixed_def)
              ultimately show ?thesis by blast
            qed
          qed
        qed
        then have alt: "a' = a \<or> (\<exists>v. a' = set_prop a key v \<and>
            (key \<noteq> ''__proto__'' \<longrightarrow> field_fixed E ORTB_MAP optout path parent (key, v)))" .
        show "distinct (map fst a') \<and> list_all (field_fixed E ORTB_MAP optout path parent) a'"
        proof (cases "key = ''__proto__''")
          case True
          with alt have "a' = a" by (auto simp: set_prop_def)
          with a show ?thesis by simp
        next
          case False
          with alt a show ?thesis by (auto simp: distinct_set_prop list_all_set_prop)
        qed
      qed
      then show ?thesis using fields_fixed_rerun out by blast
    qed
  qed
next
  case IH: (2 arr child path parent)
  show ?case
  proof (intro allI impI)
    fix out w
    assume run: "filterArrayData E ORTB_MAP optout (JArr arr) child path parent = Inr (out, w)"
      and local: "\<forall>m. ORTB_MAP path = Some m \<longrightarrow> children m \<longrightarrow> type child = Some ''object'' \<longrightarrow>
                 \<not> isArray child"
    from run obtain arr2 w2 result w3 where
      s2: "Array_filter (required_stage E ORTB_MAP path parent) (filter (type_ok child) arr) = Inr (arr2, w2)"
      and s3: "Array_reduce (elem_step E ORTB_MAP optout child path parent) arr2 [] = Inr (result, w3)"
      and out: "out = JArr result"
      using filterArrayData_closed [where E = E and ORTB_MAP = ORTB_MAP and optout = optout
            and arr = arr and child = child and path = path and parent = parent and out = out]
      by blast
    have "list_all (elem_fixed E ORTB_MAP optout child path parent) result"
    proof (rule Array_reduce_invariant [OF s3])
      show "list_all (elem_fixed E ORTB_MAP optout child path parent) []" by simp
    next
      fix a v j a' wa
      assume v: "v \<in> set arr2"
        and a: "list_all (elem_fixed E ORTB_MAP optout child path parent) a"
        and step: "elem_step E ORTB_MAP optout child path parent a v j = Inr (a', wa)"
      from Array_filter_subset [OF s2] v have typed: "type_ok child v" and v_arr: "v \<in> set arr"
        by auto
      from Array_filter_kept [OF s2 v] have req: "\<exists>w. required_stage E ORTB_MAP path parent v j' = Inr (True, w)" for j'
        using required_stage_any_index by blast
      have verbatim: "elem_fixed E ORTB_MAP optout child path parent v"
        if "\<And>result j. \<exists>w. elem_step E ORTB_MAP optout child path parent result v j = Inr (result @ [v], w)"
        using typed req that by (simp add: elem_fixed_def)
      have "a' = a \<or> (\<exists>y. a' = a @ [y] \<and> elem_fixed E ORTB_MAP optout child path parent y)"
      proof (cases "type child = Some ''string''")
        case True
        with step have "a' = a @ [v]" by (simp add: elem_step_def)
        moreover have "elem_fixed E ORTB_MAP optout child path parent v"
          by (rule verbatim) (simp add: elem_step_def True)
        ultimately show ?thesis by blast
      next
        case nostr: False
        show ?thesis
        proof (cases "type child = Some ''object''")
          case False
          with step nostr show ?thesis by (simp add: elem_step_def)
        next
          case obj: True
          show ?thesis
          proof (cases "\<exists>m. ORTB_MAP path = Some m \<and> children m")
            case False
            with step obj have "a' = a @ [v]"
              by (auto simp: elem_step_def split: option.splits)
            moreover have "elem_fixed E ORTB_MAP optout child path parent v"
              by (rule verbatim) (use False obj in \<open>auto simp: elem_step_def split: option.splits\<close>)
            ultimately show ?thesis by blast
          next
            case True
            then obtain m where m: "ORTB_MAP path = Some m" and ch: "children m" by blast
            from step obj m ch obtain vo wv where
              v1: "validateFpd E ORTB_MAP optout v (path @ ''.children.'') (parent @ ''.'') = Inr (vo, wv)"
              and a': "a' = a \<or> (a' = a @ [vo] \<and> Object_keys vo \<noteq> [] \<and>
                  (\<exists>wr. getRequiredData E vo (required m) parent j = Inr (True, wr)))"
              by (auto simp: elem_step_def bind_res_Inr split: if_splits)
            show ?thesis
            proof (cases "a' = a")
              case True
              then show ?thesis by simp
            next
              case False
              with a' obtain wr where a'': "a' = a @ [vo]" and keys: "Object_keys vo \<noteq> []"
                and rq: "getRequiredData E vo (required m) parent j = Inr (True, wr)" by blast
              from validateFpd_returns_obj [OF v1] obtain kvs where vo: "vo = JObj kvs" by blast
              from local m ch obj have notarr: "\<not> isArray child" by blast
              from IH [OF v_arr] v1 obtain w' where
                v2: "validateFpd E ORTB_MAP optout vo (path @ ''.children.'') (parent @ ''.'') = Inr (vo, w')"
                by blast
              have rq': "getRequiredData E vo (required m) parent j' = Inr (True, [])" for j'
                using getRequiredData_any_index [OF rq] .
              from rq obtain names where names: "required m = Some names"
                by (cases "required m") (simp_all add: getRequiredData_def)
              have "type_ok child vo"
                using vo obj notarr by (simp add: type_ok_def typeValidation_def)
              moreover have "\<exists>w. required_stage E ORTB_MAP path parent vo j' = Inr (True, w)" for j'
                using rq' [of j'] m names by (simp add: required_stage_def)
              moreover have "\<exists>w. elem_step E ORTB_MAP optout child path parent result vo j' =
                  Inr (result @ [vo], w)" for result j'
                using obj m ch v2 keys rq' [of j'] by (simp add: elem_step_def)
              ultimately have "elem_fixed E ORTB_MAP optout child path parent vo"
                by (simp add: elem_fixed_def)
              with a'' show ?thesis by blast
            qed
          qed
        qed
      qed
      with a show "list_all (elem_fixed E ORTB_MAP optout child path parent) a'" by auto
    qed
    then show "\<exists>w'. filterArrayData E ORTB_MAP optout out child path parent = Inr (out, w')"
      using elems_fixed_rerun out by blast
  qed
next
  case (3 v child path parent)
  then show ?case by (simp add: filterArrayData_not_array)
qed

lemma map_res_fixed:
  assumes "\<And>x. x \<in> set xs \<Longrightarrow> \<exists>w. f x = Inr (x, w)"
  shows "\<exists>w. map_res f xs = Inr (xs, w)"
  using assms
proof (induction xs)
  case Nil
  show ?case by simp
next
  case (Cons x xs)
  from Cons.prems [of x] obtain w1 where 1: "f x = Inr (x, w1)" by auto
  from Cons.IH Cons.prems obtain w2 where 2: "map_res f xs = Inr (xs, w2)"
    by (meson list.set_intros(2))
  show ?case by (simp add: 1 2)
qed

lemma fold_define_prop_distinct:
  "distinct (map fst acc) \<Longrightarrow>
   distinct (map fst (fold (\<lambda>(k, v) obj. define_prop obj k v) es acc))"
  by (induction es arbitrary: acc) (auto simp: define_prop_def distinct_update)

lemma fold_define_prop_fresh:
  "distinct (map fst (acc @ es)) \<Longrightarrow> fold (\<lambda>(k, v) obj. define_prop obj k v) es acc = acc @ es"
proof (induction es arbitrary: acc)
  case Nil
  show ?case by simp
next
  case (Cons e es)
  obtain k v where e: "e = (k, v)" by (cases e)
  from Cons.prems e have "k \<notin> fst ` set acc" by auto
  then have "define_prop acc k v = acc @ [(k, v)]" by (simp add: define_prop_def update_fresh)
  moreover from Cons.prems e have "distinct (map fst ((acc @ [(k, v)]) @ es))" by simp
  ultimately show ?case using Cons.IH [of "acc @ [(k, v)]"] e by simp
qed

lemma Object_fromEntries_distinct: "distinct (map fst (Object_fromEntries es))"
  unfolding Object_fromEntries_def by (rule fold_define_prop_distinct) simp

lemma Object_fromEntries_fixed: "distinct (map fst es) \<Longrightarrow> Object_fromEntries es = es"
  unfolding Object_fromEntries_def using fold_define_prop_fresh [of "[]" es] by simp

lemma show_nat_0: "show_nat 0 = ''0''"
  by code_simp

lemma plain_object_elements_example: "plain_object_elements example_map"
  by (auto simp: plain_object_elements_def example_map_def entry_def split: if_splits)

lemmas run_defs =
  eval_defs runValidations_def lift_res_def Object_entries_def Object_fromEntries_def
  define_prop_def show_nat_0

subsection \<open>Required names along the traversal\<close>

lemma getRequiredData_holds:
  assumes "getRequiredData E obj (Some keys) parent i = Inr (True, w)"
  shows "list_all (holds E obj) keys"
proof (cases "obj = JNull \<or> obj = JUndefined")
  case True
  with assms have "keys = []"
    by (auto simp: getRequiredData_def required_forEach_nullish split: if_splits)
  then show ?thesis by simp
next
  case False
  from getRequiredData_True [OF assms] have "list_all (required_ok E obj) keys" .
  with False show ?thesis
    by (auto simp: list_all_iff holds_def get_prop_def required_ok_def)
qed

lemma required_stage_holds:
  "required_stage E ORTB_MAP path parent v j = Inr (True, w) \<Longrightarrow>
   list_all (holds E v) (required_names ORTB_MAP path)"
  by (auto simp: required_stage_def required_names_def getRequiredData_holds split: option.splits)

lemma required_met_obj:
  "required_met E ORTB_MAP path (JObj kvs) = list_all (field_met E ORTB_MAP path) kvs"
  by (simp add: field_met_def)

lemma required_traversal:
  "(\<forall>out w. validateFpd E ORTB_MAP optout fpd path parent = Inr (out, w) \<longrightarrow>
            required_met E ORTB_MAP path out) \<and>
   (\<forall>out w. filterArrayData E ORTB_MAP optout arr child path' parent' = Inr (out, w) \<longrightarrow>
            Array_isArray out \<and>
            list_all (\<lambda>e. list_all (holds E e) (required_names ORTB_MAP path')) (elements out) \<and>
            (\<forall>m. ORTB_MAP path' = Some m \<longrightarrow> children m \<longrightarrow> type child = Some ''object'' \<longrightarrow>
               required_met E ORTB_MAP (path' @ ''.children.'') out))"
proof (rule value_induct [where E = E and
      P = "\<lambda>fpd path parent. \<forall>out w. validateFpd E ORTB_MAP optout fpd path parent = Inr (out, w) \<longrightarrow>
            required_met E ORTB_MAP path out" and
      Q = "\<lambda>arr child path' parent'. \<forall>out w.
            filterArrayData E ORTB_MAP optout arr child path' parent' = Inr (out, w) \<longrightarrow>
            Array_isArray out \<and>
            list_all (\<lambda>e. list_all (holds E e) (required_names ORTB_MAP path')) (elements out) \<and>
            (\<forall>m. ORTB_MAP path' = Some m \<longrightarrow> children m \<longrightarrow> type child = Some ''object'' \<longrightarrow>
               required_met E ORTB_MAP (path' @ ''.children.'') out)"], goal_cases)
  case IH: (1 fpd path parent)
  show ?case
  proof (intro allI impI)
    fix out w
    assume run: "validateFpd E ORTB_MAP optout fpd path parent = Inr (out, w)"
    show "required_met E ORTB_MAP path out"
    proof (cases "truthy fpd")
      case False
      with run show ?thesis by (auto simp: validateFpd_falsy)
    next
      case True
      from run obtain result w3 where
        red: "Array_reduce (field_step E ORTB_MAP optout fpd path parent)
           (filter (kept_key E ORTB_MAP fpd path) (Object_keys fpd)) [] = Inr (result, w3)"
        and out: "out = JObj result"
        using validateFpd_closed [OF True, where E = E and ORTB_MAP = ORTB_MAP and optout = optout
            and path = path and parent = parent and out = out] by blast
      have "list_all (field_met E ORTB_MAP path) result"
      proof (rule Array_reduce_invariant [OF red])
        show "list_all (field_met E ORTB_MAP path) []" by simp
      next
        fix a key j a' wa
        assume key: "key \<in> set (filter (kept_key E ORTB_MAP fpd path) (Object_keys fpd))"
          and a: "list_all (field_met E ORTB_MAP path) a"
          and step: "field_step E ORTB_MAP optout fpd path parent a key j = Inr (a', wa)"
        from key have own: "key \<in> set (Object_keys fpd)" by simp
        show "list_all (field_met E ORTB_MAP path) a'"
        proof (cases "ORTB_MAP (path @ key)")
          case None
          then have "field_met E ORTB_MAP path (key, read E fpd key)"
            by (simp add: field_met_def)
          moreover from step None have "a' = set_prop a key (read E fpd key)"
            by (simp add: field_step_def)
          ultimately show ?thesis using a by (simp add: list_all_set_prop)
        next
          case (Some mapping)
          from key Some have tv: "typeValidation (read E fpd key)
              \<lparr>type = type mapping, isArray = isArray mapping\<rparr>"
            by (simp add: kept_key_def)
          show ?thesis
          proof (cases "optoutApplies mapping \<and> optout")
            case True
            with step Some a show ?thesis by (simp add: field_step_def)
          next
            case False
            from step Some False obtain modified wm where
              fv: "field_value E ORTB_MAP optout mapping (read E fpd key) path parent key =
                  Inr (modified, wm)"
              and a': "a' = set_prop a key modified \<or> a' = a"
              by (auto simp: field_step_def bind_res_Inr split: if_splits)
            have "field_met E ORTB_MAP path (key, modified)"
            proof (cases "type mapping = Some ''object'' \<and> \<not> isArray mapping")
              case True
              with tv have "typeof (read E fpd key) = ''object''"
                by (simp add: typeValidation_def)
              from IH(1) [OF own this] fv True Some show ?thesis
                by (simp add: field_met_def field_value_def)
            next
              case notobj: False
              show ?thesis
              proof (cases "isArray mapping \<and> declared (childType mapping)")
                case True
                with fv notobj have f1: "filterArrayData E ORTB_MAP optout (read E fpd key)
                    \<lparr>type = childType mapping, isArray = childisArray mapping\<rparr>
                    (path @ key) (parent @ key) = Inr (modified, wm)"
                  by (simp add: field_value_def)
                note q = IH(2) [OF own, of "\<lparr>type = childType mapping, isArray = childisArray mapping\<rparr>",
                    rule_format, OF f1]
                from q have 1: "Array_isArray modified"
                  and 2: "list_all (\<lambda>e. list_all (holds E e) (required_names ORTB_MAP (path @ key)))
                      (elements modified)"
                  by simp_all
                have 3: "required_met E ORTB_MAP (path @ key @ ''.children.'') modified"
                  if "childType mapping = Some ''object''" and "children mapping"
                  using q Some that by simp
                from Some True notobj 1 2 3 show ?thesis
                  by (simp add: field_met_def)
              next
                case False
                with Some notobj show ?thesis by (auto simp: field_met_def)
              qed
            qed
            with a a' show ?thesis by (auto intro: list_all_set_prop)
          qed
        qed
      qed
      then show ?thesis by (simp only: out required_met_obj)
    qed
  qed
next
  case IH: (2 arr child path parent)
  show ?case
  proof (intro allI impI)
    fix out' w'
    assume run: "filterArrayData E ORTB_MAP optout (JArr arr) child path parent = Inr (out', w')"
    from run obtain arr2 w2 result w3 where
      s2: "Array_filter (required_stage E ORTB_MAP path parent) (filter (type_ok child) arr) =
          Inr (arr2, w2)"
      and s3: "Array_reduce (elem_step E ORTB_MAP optout child path parent) arr2 [] = Inr (result, w3)"
      and out: "out' = JArr result"
      using filterArrayData_closed [where E = E and ORTB_MAP = ORTB_MAP and optout = optout
          and arr = arr and child = child and path = path and parent = parent and out = out']
      by blast
    let ?names = "required_names ORTB_MAP path"
    let ?I = "\<lambda>ys. list_all (\<lambda>e. list_all (holds E e) ?names) ys \<and>
        (\<forall>m. ORTB_MAP path = Some m \<longrightarrow> children m \<longrightarrow> type child = Some ''object'' \<longrightarrow>
           list_all (required_met E ORTB_MAP (path @ ''.children.'')) ys)"
    have "?I result"
    proof (rule Array_reduce_invariant [OF s3])
      show "?I []" by simp
    next
      fix a v j a' wa
      assume v: "v \<in> set arr2" and a: "?I a"
        and step: "elem_step E ORTB_MAP optout child path parent a v j = Inr (a', wa)"
      from Array_filter_subset [OF s2] v have v_arr: "v \<in> set arr" by auto
      from Array_filter_kept [OF s2 v] have hv: "list_all (holds E v) ?names"
        using required_stage_holds by blast
      have "a' = a \<or> (\<exists>y. a' = a @ [y] \<and> list_all (holds E y) ?names \<and>
          (\<forall>m. ORTB_MAP path = Some m \<longrightarrow> children m \<longrightarrow> type child = Some ''object'' \<longrightarrow>
             required_met E ORTB_MAP (path @ ''.children.'') y))"
      proof (cases "type child = Some ''string''")
        case True
        with step have "a' = a @ [v]" by (simp add: elem_step_def)
        with hv True show ?thesis by simp
      next
        case nostr: False
        show ?thesis
        proof (cases "type child = Some ''object''")
          case False
          with step nostr show ?thesis by (simp add: elem_step_def)
        next
          case obj: True
          show ?thesis
          proof (cases "\<exists>m. ORTB_MAP path = Some m \<and> children m")
            case False
            with step obj have "a' = a @ [v]"
              by (auto simp: elem_step_def split: option.splits)
            with hv False show ?thesis by auto
          next
            case True
            then obtain m where m: "ORTB_MAP path = Some m" and ch: "children m" by blast
            from step obj m ch obtain vo wv where
              v1: "validateFpd E ORTB_MAP optout v (path @ ''.children.'') (parent @ ''.'') =
                  Inr (vo, wv)"
              and a': "a' = a \<or> (a' = a @ [vo] \<and>
                  (\<exists>wr. getRequiredData E vo (required m) parent j = Inr (True, wr)))"
              by (auto simp: elem_step_def bind_res_Inr split: if_splits)
            show ?thesis
            proof (cases "a' = a")
              case True
              then show ?thesis by simp
            next
              case False
              with a' obtain wr where a'': "a' = a @ [vo]"
                and rq: "getRequiredData E vo (required m) parent j = Inr (True, wr)" by blast
              from rq obtain names where names: "required m = Some names"
                by (cases "required m") (simp_all add: getRequiredData_def)
              from rq names have "list_all (holds E vo) names"
                using getRequiredData_holds by simp
              with m names have "list_all (holds E vo) ?names"
                by (simp add: required_names_def)
              moreover from IH [OF v_arr] v1
              have "required_met E ORTB_MAP (path @ ''.children.'') vo" by blast
              ultimately show ?thesis using a'' by blast
            qed
          qed
        qed
      qed
      with a show "?I a'" by auto
    qed
    then show "Array_isArray out' \<and>
        list_all (\<lambda>e. list_all (holds E e) (required_names ORTB_MAP path)) (elements out') \<and>
        (\<forall>m. ORTB_MAP path = Some m \<longrightarrow> children m \<longrightarrow> type child = Some ''object'' \<longrightarrow>
           required_met E ORTB_MAP (path @ ''.children.'') out')"
      by (simp add: out)
  qed
next
  case (3 v child path parent)
  then show ?case by (simp add: filterArrayData_not_array)
qed

text \<open>The trees that \<open>runValidations\<close> returns meet the required lists, too.\<close>

lemma runValidations_required_met:
  assumes run: "runValidations E ORTB_MAP optout data = Inr (out, w)"
  shows "\<exists>global bidders.
           out = JObj [(''global'', global), (''bidder'', JObj bidders)] \<and>
           required_met E ORTB_MAP [] global \<and>
           list_all (\<lambda>(bidder, conf). required_met E ORTB_MAP [] conf) bidders"
proof -
  have met: "required_met E ORTB_MAP [] v"
    if "validateFpd E ORTB_MAP optout fpd [] [] = Inr (v, wv)" for fpd v wv
    using required_traversal
      [where E = E and ORTB_MAP = ORTB_MAP and optout = optout and fpd = fpd and path = "[]"
        and parent = "[]"] that
    by blast
  from run obtain data_global wg global wb entries validated wv where
    g: "validateFpd E ORTB_MAP optout data_global [] [] = Inr (global, wg)"
    and v: "map_res (\<lambda>(bidder, conf).
         bind_res (validateFpd E ORTB_MAP optout conf [] []) (\<lambda>v. Inr ((bidder, v), [])))
       entries = Inr (validated, wv)"
    and out: "out = JObj [(''global'', global), (''bidder'', JObj (Object_fromEntries validated))]"
    unfolding runValidations_def bind_res_Inr by blast
  have "list_all (\<lambda>(bidder, conf). required_met E ORTB_MAP [] conf) validated"
    unfolding list_all_iff
  proof
    fix e assume "e \<in> set validated"
    from map_res_elems [OF v this] obtain bidder conf conf' wc where
      "validateFpd E ORTB_MAP optout conf [] [] = Inr (conf', wc)" and "e = (bidder, conf')"
      by (auto simp: bind_res_Inr)
    then show "case e of (bidder, conf) \<Rightarrow> required_met E ORTB_MAP [] conf"
      using met by simp
  qed
  then have "list_all (\<lambda>(bidder, conf). required_met E ORTB_MAP [] conf)
      (Object_fromEntries validated)"
    by (rule Object_fromEntries_all)
  with met [OF g] out show ?thesis by blast
qed

text \<open>
  A required name may be found on the prototype, or be a property that is not enumerable:
  every object passes the check for the name \<open>constructor\<close>, and a string with one character
  for \<open>length\<close>.
\<close>

lemma getRequiredData_inherited:
  "getRequiredData standard_engine (JObj []) (Some [''constructor'']) ''user.data'' 0 =
     Inr (True, []) \<and>
   getRequiredData standard_engine (JStr ''a'') (Some [''length'']) ''user.data'' 0 =
     Inr (True, [])"
  by (simp add: eval_defs)

section \<open>The claims\<close>

subsection \<open>C1: required names\<close>

text \<open>
  C1, as stated, fails: \<open>validateFpd\<close> never consults the \<open>required\<close> list of an object entry,
  and it hands an array to \<open>filterArrayData\<close>, where the list is enforced, only when the entry
  names the type of the elements.  In Scenario C it returns the input unchanged, with \<open>user\<close>
  and its empty \<open>id\<close>, and logs nothing.  An array whose entry has a \<open>required\<close> list and no
  \<open>childType\<close> is returned as it is, too, with an element that has no \<open>id\<close>.
\<close>

theorem required_not_enforced:
  "validateFpd standard_engine scenario_C_map False
     (JObj [(''user'', JObj [(''id'', JStr []), (''name'', JStr ''x'')])]) [] [] =
   Inr (JObj [(''user'', JObj [(''id'', JStr []), (''name'', JStr ''x'')])], []) \<and>
   validateFpd standard_engine untyped_required_map False
     (JObj [(''d'', JArr [JObj [(''name'', JStr ''x'')]])]) [] [] =
   Inr (JObj [(''d'', JArr [JObj [(''name'', JStr ''x'')]])], [])"
  by (simp add: eval_defs scenario_C_map_def untyped_required_map_def)

text \<open>
  C1, amended: the required lists are enforced on the elements of arrays.  For every engine,
  table, redaction flag, input and path, whenever \<open>validateFpd\<close> returns, its output meets the
  required lists of the arrays in it (\<open>required_met\<close>): at every field, at any depth that the
  traversal validates, whose entry is an array entry naming the type of its elements, the
  value is an array and each element of it holds a non-empty value for every name the entry
  requires.
\<close>

theorem required_enforced_on_array_elements:
  assumes "validateFpd E ORTB_MAP optout fpd path parent = Inr (out, w)"
  shows "required_met E ORTB_MAP path out"
  using assms
    required_traversal [where E = E and ORTB_MAP = ORTB_MAP and optout = optout and fpd = fpd
      and path = path and parent = parent]
  by blast

text \<open>
  Witness for C1: of two elements of \<open>user.data\<close> the one without \<open>segment\<close> is dropped; the
  output, with the element that holds both required names, meets the required lists.
\<close>

theorem required_enforced_on_array_elements_witness:
  "validateFpd standard_engine example_map False
     (JObj [(''user'', JObj [(''data'', JArr [good_datum, JObj [(''name'', JStr ''m'')]])])]) [] [] =
     Inr (JObj [(''user'', JObj [(''data'', JArr [good_datum])])],
          [MissingRequired ''user.data'' 1 ''segment'']) \<and>
   required_met standard_engine example_map []
     (JObj [(''user'', JObj [(''data'', JArr [good_datum])])])"
proof -
  have run: "validateFpd standard_engine example_map False
     (JObj [(''user'', JObj [(''data'', JArr [good_datum, JObj [(''name'', JStr ''m'')]])])]) [] [] =
     Inr (JObj [(''user'', JObj [(''data'', JArr [good_datum])])],
          [MissingRequired ''user.data'' 1 ''segment''])"
    by (simp add: eval_defs example_map_def good_datum_def)
  from required_enforced_on_array_elements [OF run] run
  show ?thesis by simp
qed

subsection \<open>C2: the required check\<close>

text \<open>
  C2: the claim is that \<open>getRequiredData\<close> fails a name exactly when it is absent from the
  object or empty by the emptiness rule, under which the number zero counts as present, so
  that it returns true for an object whose property \<open>w\<close> is zero and the required list \<open>[w]\<close>.
  The code returns false and logs "missing required property w" for a property that exists:
  its test starts with \<open>!obj[key]\<close>, and zero is falsy, although the emptiness rule consulted
  next says that zero is not empty.  The two tests differ on zero and \<open>NaN\<close> only
  (\<open>required_ok_iff\<close>); for the other values the function is as the claim says
  (\<open>getRequiredData_eq\<close>).
\<close>

theorem getRequiredData_zero:
  "getRequiredData standard_engine (JObj [(''w'', JNum (Fin 0))]) (Some [''w'']) ''device'' 0 =
     Inr (False, [MissingRequired ''device'' 0 ''w'']) \<and>
   isEmptyData (JNum (Fin 0)) = False"
  by (simp add: getRequiredData_def get_prop_def read_def isEmptyData_def)

subsection \<open>C3: exceptions in the traversal\<close>

text \<open>
  C3: the claim is that no call in the traversal raises.  The code raises a \<open>TypeError\<close> in two
  places.  For an array of objects whose schema entry declares \<open>children\<close> and no \<open>required\<close>
  list, the reduce of \<open>filterArrayData\<close> calls \<open>getRequiredData\<close> with \<open>undefined\<close>, whose
  \<open>forEach\<close> throws (the filter before it guards the same call with \<open>mapping.required\<close>).  And
  a \<open>null\<close> element of an array whose entry has a required list passes the type check and
  reaches \<open>obj[key]\<close> in \<open>getRequiredData\<close>.
\<close>

theorem traversal_raises:
  "validateFpd standard_engine children_only_map False (JObj [(''d'', JArr [JObj [(''a'', JNum (Fin 1))]])]) [] [] =
     Inl TypeError \<and>
   validateFpd standard_engine example_map False (JObj [(''user'', JObj [(''data'', JArr [JNull])])]) [] [] =
     Inl TypeError"
  by (simp add: eval_defs children_only_map_def example_map_def)

subsection \<open>C4: the type check on objects\<close>

text \<open>
  C4: the claim is that \<open>typeValidation\<close> accepts, for the type \<open>object\<close>, exactly the non-null
  structured values whose array-ness equals \<open>isArray\<close>, so that \<open>null\<close> is rejected.  The code
  tests \<open>typeof data === 'object'\<close>, which holds of \<open>null\<close>: \<open>null\<close> is accepted as a
  non-array object.  It is the one value on which the code and the claim differ
  (\<open>typeValidation_object_iff\<close>).
\<close>

theorem typeValidation_null_object:
  "typeValidation JNull \<lparr>type = Some ''object'', isArray = False\<rparr> = True"
  by (simp add: typeValidation_def)

subsection \<open>C5: arrays of numbers\<close>



subsection \<open>C6: the index in the diagnostics of an array\<close>

text \<open>
  C6: the claim is that the required stage and the shape stage name a dropped element by
  its index in the input array.  The code passes each stage the index in the output of the
  stage before.  Here the first element is dropped by the type stage; the second element,
  at index 1 of the input, misses \<open>segment\<close> and is reported at index 0.
\<close>

theorem index_among_survivors:
  "filterArrayData standard_engine example_map False (JArr [JNum (Fin 5), JObj [(''name'', JStr ''n'')]])
     \<lparr>type = Some ''object'', isArray = False\<rparr> ''user.children.data'' ''user.data'' =
   Inr (JArr [], [ElementType ''user.data'' 0 (Some ''object''),
                  MissingRequired ''user.data'' 0 ''segment''])"
  by (simp add: eval_defs example_map_def)

subsection \<open>C7: redaction on opt-out\<close>

text \<open>
  C7, as stated, fails in two ways.  With the opt-out flag active and \<open>skipValidations\<close> set,
  \<open>processFpd\<close> returns the data as they are, \<open>user.yob\<close> included.  And an array whose entry
  declares \<open>children\<close> but no \<open>childType\<close> is passed through unvalidated, with the redacted
  fields of its elements.
\<close>

theorem redaction_fails:
  "compute_optout optout_storage \<and>
   processFpd standard_engine example_map optout_storage example_conf example_data = Inr (example_data, []) \<and>
   \<not> no_redacted example_map [] (read standard_engine example_data ''global'') \<and>
   processFpd standard_engine untyped_array_map optout_storage (JObj [])
     (JObj [(''global'', JObj [(''segments'', JArr [JObj [(''id'', JStr ''s'')]])]),
            (''bidder'', JObj [])]) =
     Inr (JObj [(''global'', JObj [(''segments'', JArr [JObj [(''id'', JStr ''s'')]])]),
                (''bidder'', JObj [])], []) \<and>
   \<not> no_redacted untyped_array_map [] (JObj [(''segments'', JArr [JObj [(''id'', JStr ''s'')]])])"
  by (simp add: eval_defs compute_optout_def optout_storage_def processFpd_def lift_res_def
      example_conf_def example_data_def example_map_def untyped_array_map_def
      runValidations_def Object_entries_def Object_fromEntries_def define_prop_def)

text \<open>
  C7, amended: when the redaction flag is active, the validations are not skipped and every
  array entry of the table that declares \<open>children\<close> also declares its \<open>childType\<close>, then for
  every input on which \<open>processFpd\<close> returns, no field whose descriptor carries
  \<open>optoutApplies\<close> appears anywhere in the \<open>global\<close> tree or in a bidder's tree of the output.
\<close>

theorem redacted_fields_removed:
  assumes flag: "compute_optout STORAGE"
    and skip: "get_prop E fpdConf ''skipValidations'' = Inr skipValidations"
      "\<not> truthy skipValidations"
    and typed: "array_entries_typed ORTB_MAP"
    and run: "processFpd E ORTB_MAP STORAGE fpdConf data = Inr (out, w)"
  shows "\<exists>global bidders.
           out = JObj [(''global'', global), (''bidder'', JObj bidders)] \<and>
           no_redacted ORTB_MAP [] global \<and>
           list_all (\<lambda>(bidder, conf). no_redacted ORTB_MAP [] conf) bidders"
proof -
  have inv: "\<And>p m. ORTB_MAP p = Some m \<Longrightarrow> isArray m \<Longrightarrow> children m \<Longrightarrow> declared (childType m)"
    using typed unfolding array_entries_typed_def by blast
  have clean: "no_redacted ORTB_MAP [] v"
    if "validateFpd E ORTB_MAP True fpd [] [] = Inr (v, wv)" for fpd v wv
    using no_redacted_traversal
      [where E = E and ORTB_MAP = ORTB_MAP and fpd = fpd and path = "[]" and parent = "[]"] inv that
    by blast
  from run flag skip have "runValidations E ORTB_MAP True data = Inr (out, w)"
    by (auto simp: processFpd_def lift_res_def split: sum.splits)
  then obtain data_global wg global wb entries validated wv where
    g: "validateFpd E ORTB_MAP True data_global [] [] = Inr (global, wg)"
    and v: "map_res (\<lambda>(bidder, conf).
         bind_res (validateFpd E ORTB_MAP True conf [] []) (\<lambda>v. Inr ((bidder, v), [])))
       entries = Inr (validated, wv)"
    and out: "out = JObj [(''global'', global), (''bidder'', JObj (Object_fromEntries validated))]"
    unfolding runValidations_def bind_res_Inr by blast
  have "list_all (\<lambda>(bidder, conf). no_redacted ORTB_MAP [] conf) validated"
    unfolding list_all_iff
  proof
    fix e assume "e \<in> set validated"
    from map_res_elems [OF v this] obtain bidder conf conf' wc where
      "validateFpd E ORTB_MAP True conf [] [] = Inr (conf', wc)" and "e = (bidder, conf')"
      by (auto simp: bind_res_Inr)
    then show "case e of (bidder, conf) \<Rightarrow> no_redacted ORTB_MAP [] conf"
      using clean by simp
  qed
  then have "list_all (\<lambda>(bidder, conf). no_redacted ORTB_MAP [] conf) (Object_fromEntries validated)"
    by (rule Object_fromEntries_all)
  with clean [OF g] out show ?thesis by blast
qed

text \<open>
  Witness for C7: with the opt-out cookie set, \<open>yob\<close> and \<open>gender\<close> are removed from the global
  tree and \<open>yob\<close> from the bidder's.
\<close>

theorem redacted_fields_removed_witness:
  "compute_optout optout_storage \<and>
   get_prop standard_engine (JObj []) ''skipValidations'' = Inr JUndefined \<and> \<not> truthy JUndefined \<and>
   array_entries_typed example_map \<and>
   processFpd standard_engine example_map optout_storage (JObj []) user_data =
     Inr (JObj [(''global'', JObj [(''user'', JObj [(''keywords'', JStr ''k'')])]),
                (''bidder'', JObj [(''bidderA'', JObj [])])],
          [OptoutFound ''user.'' ''yob'', OptoutFound ''user.'' ''gender'',
           OptoutFound ''user.'' ''yob'', EmptyData [] ''user'']) \<and>
   no_redacted example_map [] (JObj [(''user'', JObj [(''keywords'', JStr ''k'')])]) \<and>
   list_all (\<lambda>(bidder, conf). no_redacted example_map [] conf) [(''bidderA'', JObj [])]"
proof -
  have flag: "compute_optout optout_storage"
    by (simp add: compute_optout_def optout_storage_def declared_def)
  have skip: "get_prop standard_engine (JObj []) ''skipValidations'' = Inr JUndefined"
    by (simp add: get_prop_def read_def standard_engine_def object_members_def)
  have falsy: "\<not> truthy JUndefined" by simp
  have run: "processFpd standard_engine example_map optout_storage (JObj []) user_data =
     Inr (JObj [(''global'', JObj [(''user'', JObj [(''keywords'', JStr ''k'')])]),
                (''bidder'', JObj [(''bidderA'', JObj [])])],
          [OptoutFound ''user.'' ''yob'', OptoutFound ''user.'' ''gender'',
           OptoutFound ''user.'' ''yob'', EmptyData [] ''user''])"
    by (simp add: eval_defs compute_optout_def optout_storage_def processFpd_def lift_res_def
      user_data_def example_map_def runValidations_def Object_entries_def Object_fromEntries_def define_prop_def)
  from redacted_fields_removed [OF flag skip falsy array_entries_typed_example run]
  show ?thesis using flag skip falsy array_entries_typed_example run by simp
qed

subsection \<open>C8: idempotence\<close>

text \<open>
  C8, as stated, fails: for a table with an array of arrays that has a nested schema,
  \<open>validateFpd\<close> turns each inner array into an object with the keys \<open>0\<close>, \<open>1\<close>, ...; the
  second run rejects these objects, since the entry says the elements are arrays, and drops
  the field.
\<close>

theorem second_run_differs:
  "runValidations standard_engine nested_arrays_map False nested_data =
     Inr (JObj [(''global'', JObj [(''d'', JArr [JObj [(''0'', JNum (Fin 1))]])]),
                (''bidder'', JObj [])], []) \<and>
   runValidations standard_engine nested_arrays_map False
     (JObj [(''global'', JObj [(''d'', JArr [JObj [(''0'', JNum (Fin 1))]])]),
            (''bidder'', JObj [])]) =
     Inr (JObj [(''global'', JObj []), (''bidder'', JObj [])],
          [ElementType ''d'' 0 (Some ''object''), EmptyData [] ''d''])"
  by (simp add: run_defs nested_arrays_map_def nested_data_def)

text \<open>
  C8, amended: for every table in which no entry for an array of objects with a nested
  schema sets \<open>childisArray\<close>, every redaction flag and every input on which the validation
  run returns, the run applied to its own output returns that output unchanged.
\<close>

theorem runValidations_idempotent:
  assumes plain: "plain_object_elements ORTB_MAP"
    and run: "runValidations E ORTB_MAP optout data = Inr (out, w)"
  shows "\<exists>w'. runValidations E ORTB_MAP optout out = Inr (out, w')"
proof -
  have p: "\<And>p m. ORTB_MAP p = Some m \<Longrightarrow> isArray m \<Longrightarrow> children m \<Longrightarrow>
      childType m = Some ''object'' \<Longrightarrow> \<not> childisArray m"
    using plain unfolding plain_object_elements_def by blast
  have again: "\<exists>w'. validateFpd E ORTB_MAP optout v [] [] = Inr (v, w')"
    if "validateFpd E ORTB_MAP optout fpd [] [] = Inr (v, wv)" for fpd v wv
    using idempotent_traversal
      [where E = E and ORTB_MAP = ORTB_MAP and optout = optout and fpd = fpd and path = "[]"
        and parent = "[]"]
      p that
    by blast
  from run obtain data_global wg global wb entries validated wv where
    g: "validateFpd E ORTB_MAP optout data_global [] [] = Inr (global, wg)"
    and v: "map_res (\<lambda>(bidder, conf).
         bind_res (validateFpd E ORTB_MAP optout conf [] []) (\<lambda>v. Inr ((bidder, v), [])))
       entries = Inr (validated, wv)"
    and out: "out = JObj [(''global'', global), (''bidder'', JObj (Object_fromEntries validated))]"
    unfolding runValidations_def bind_res_Inr by blast
  let ?f = "\<lambda>(bidder, conf).
         bind_res (validateFpd E ORTB_MAP optout conf [] []) (\<lambda>v. Inr ((bidder, v), []))"
  have "list_all (\<lambda>e. \<exists>w. ?f e = Inr (e, w)) validated"
    unfolding list_all_iff
  proof
    fix e assume "e \<in> set validated"
    from map_res_elems [OF v this] obtain bidder conf conf' wc where
      c: "validateFpd E ORTB_MAP optout conf [] [] = Inr (conf', wc)" and e: "e = (bidder, conf')"
      by (auto simp: bind_res_Inr)
    from again [OF c] show "\<exists>w. ?f e = Inr (e, w)" by (auto simp: e)
  qed
  then have "list_all (\<lambda>e. \<exists>w. ?f e = Inr (e, w)) (Object_fromEntries validated)"
    by (rule Object_fromEntries_all)
  then obtain w2 where m: "map_res ?f (Object_fromEntries validated) =
      Inr (Object_fromEntries validated, w2)"
    using map_res_fixed [of "Object_fromEntries validated" ?f] by (auto simp: list_all_iff)
  from again [OF g] obtain w1 where g2: "validateFpd E ORTB_MAP optout global [] [] = Inr (global, w1)" ..
  have f: "Object_fromEntries (Object_fromEntries validated) = Object_fromEntries validated"
    by (rule Object_fromEntries_fixed) (rule Object_fromEntries_distinct)
  show ?thesis
    unfolding out runValidations_def
    by (simp add: get_prop_def read_def lift_res_def Object_entries_def g2 m f)
qed

text \<open>
  Witness for C8: the example table; the output of the first run is returned by the
  second.
\<close>

theorem runValidations_idempotent_witness:
  "plain_object_elements example_map \<and>
   runValidations standard_engine example_map True user_data =
     Inr (validated_user_data,
          [OptoutFound ''user.'' ''yob'', OptoutFound ''user.'' ''gender'',
           OptoutFound ''user.'' ''yob'', EmptyData [] ''user'']) \<and>
   (\<exists>w'. runValidations standard_engine example_map True validated_user_data = Inr (validated_user_data, w'))"
proof -
  have run: "runValidations standard_engine example_map True user_data =
     Inr (validated_user_data,
          [OptoutFound ''user.'' ''yob'', OptoutFound ''user.'' ''gender'',
           OptoutFound ''user.'' ''yob'', EmptyData [] ''user''])"
    by (simp add: run_defs example_map_def user_data_def validated_user_data_def)
  from runValidations_idempotent [OF plain_object_elements_example run]
  show ?thesis using plain_object_elements_example run by simp
qed

subsection \<open>C9: the emptiness rule\<close>

text \<open>
  C9: for every value \<open>x\<close>, \<open>isEmptyData x\<close> is true exactly when \<open>x\<close> is a structured value
  (object or array) with zero entries, or \<open>x\<close> is not a number and is falsy.  So every
  non-empty structure, every number (zero, \<open>NaN\<close> and the infinities included) and every
  truthy scalar is non-empty.
\<close>

theorem isEmptyData_rule:
  "isEmptyData x \<longleftrightarrow>
     (structured x \<and> own_entries x = []) \<or> (typeof x \<noteq> ''number'' \<and> \<not> truthy x)"
  by (cases x) (auto simp: isEmptyData_def)

subsection \<open>C10: skipping the validations\<close>

text \<open>
  C10: when the configuration's \<open>skipValidations\<close> is truthy, \<open>processFpd\<close> returns the data it
  was given, whatever they are, and logs nothing.
\<close>

theorem processFpd_skipValidations:
  assumes "get_prop E fpdConf ''skipValidations'' = Inr v" and "truthy v"
  shows "processFpd E ORTB_MAP STORAGE fpdConf data = Inr (data, [])"
  using assms by (simp add: processFpd_def lift_res_def)

text \<open>Witness for C10: the configuration \<open>{skipValidations: true}\<close>.\<close>

theorem processFpd_skipValidations_witness:
  "get_prop standard_engine example_conf ''skipValidations'' = Inr (JBool True) \<and> truthy (JBool True) \<and>
   processFpd standard_engine example_map optout_storage example_conf example_data = Inr (example_data, [])"
proof -
  have 1: "get_prop standard_engine example_conf ''skipValidations'' = Inr (JBool True)"
    by (simp add: example_conf_def get_prop_def read_def)
  have 2: "truthy (JBool True)" by simp
  show ?thesis using 1 2 processFpd_skipValidations [OF 1 2] by simp
qed

end
